theory Spec2Isabelle
  imports Main "HOL-Library.Word"
begin

unbundle bit_operations_syntax

section \<open>The TicTacToe contract: data model\<close>

text \<open>
  The Solidity contract \<open>TicTacToe\<close> (solidity 0.8.20, checked arithmetic). An
  \<open>address\<close> is a 160-bit word, \<open>uint256\<close> and \<open>uint8\<close> are words of their
  width, a mapping is a total function (an absent key reads as the zero value of the
  value type), and the fixed-size array \<open>CellState[9]\<close> is a list of nine cells.
\<close>

type_synonym address = "160 word"
type_synonym uint256 = "256 word"
type_synonym uint8 = "8 word"

text \<open>\<open>enum CellState { Empty, X, O }\<close>; the name \<open>O\<close> is taken by relation
  composition, so the two marks carry a prefix.\<close>

datatype CellState = Empty | MarkX | MarkO

text \<open>\<open>enum GameState { WaitingForPlayer, InProgress, Finished, Draw }\<close>\<close>

datatype GameState = WaitingForPlayer | InProgress | Finished | Draw

record Game =
  player1 :: address
  player2 :: address
  board :: "CellState list"
  currentTurn :: address
  winner :: address
  state :: GameState
  createdAt :: uint256
  lastMoveAt :: uint256

datatype event =
    GameCreated uint256 address
  | GameJoined uint256 address
  | MoveMade uint256 address uint8
  | GameWon uint256 address
  | GameDraw uint256
  | WinnerNFTMinted uint256 address uint256

text \<open>The custom errors of the contract, and the panic of checked arithmetic
  (\<open>Panic(0x11)\<close>, raised by \<open>++\<close> on a counter that holds the largest value).\<close>

datatype error =
    GameNotFound
  | GameNotWaitingForPlayer
  | GameNotInProgress
  | CannotJoinOwnGame
  | NotYourTurn
  | InvalidPosition
  | CellNotEmpty
  | NotAPlayer
  | GameAlreadyFinished
  | Panic

text \<open>The storage of the contract, with the log of emitted events and the owner of each
  trophy token (the part of the inherited ERC721 storage that the contract writes).\<close>

record storage =
  gameCounter :: uint256
  tokenIdCounter :: uint256
  games :: "uint256 \<Rightarrow> Game"
  playerGames :: "address \<Rightarrow> uint256 list"
  playerWins :: "address \<Rightarrow> uint256"
  playerGamesPlayed :: "address \<Rightarrow> uint256"
  tokenOwner :: "uint256 \<Rightarrow> address"
  events :: "event list"

text \<open>The zero value of \<open>Game\<close>, read from \<open>games\<close> at an identifier never written.\<close>

definition zeroGame :: Game where
  "zeroGame = \<lparr> player1 = 0, player2 = 0, board = replicate 9 Empty, currentTurn = 0,
     winner = 0, state = WaitingForPlayer, createdAt = 0, lastMoveAt = 0 \<rparr>"

text \<open>The state after the constructor.\<close>

definition initial :: storage where
  "initial = \<lparr> gameCounter = 0, tokenIdCounter = 0, games = (\<lambda>_. zeroGame),
     playerGames = (\<lambda>_. []), playerWins = (\<lambda>_. 0), playerGamesPlayed = (\<lambda>_. 0),
     tokenOwner = (\<lambda>_. 0), events = [] \<rparr>"

section \<open>Board engine\<close>

text \<open>\<open>_checkWinner\<close>: eight tests in the order of the source, each returning early.\<close>

definition checkWinner :: "CellState list \<Rightarrow> CellState \<Rightarrow> bool" where
  "checkWinner b mark =
    (if b ! 0 = mark \<and> b ! 1 = mark \<and> b ! 2 = mark then True
     else if b ! 3 = mark \<and> b ! 4 = mark \<and> b ! 5 = mark then True
     else if b ! 6 = mark \<and> b ! 7 = mark \<and> b ! 8 = mark then True
     else if b ! 0 = mark \<and> b ! 3 = mark \<and> b ! 6 = mark then True
     else if b ! 1 = mark \<and> b ! 4 = mark \<and> b ! 7 = mark then True
     else if b ! 2 = mark \<and> b ! 5 = mark \<and> b ! 8 = mark then True
     else if b ! 0 = mark \<and> b ! 4 = mark \<and> b ! 8 = mark then True
     else if b ! 2 = mark \<and> b ! 4 = mark \<and> b ! 6 = mark then True
     else False)"

text \<open>\<open>WINNING_COMBINATIONS\<close> of the client configuration.\<close>

definition WINNING_COMBINATIONS :: "nat list list" where
  "WINNING_COMBINATIONS =
    [[0, 1, 2], [3, 4, 5], [6, 7, 8],
     [0, 3, 6], [1, 4, 7], [2, 5, 8],
     [0, 4, 8], [2, 4, 6]]"

text \<open>\<open>_isBoardFull\<close>: the loop \<open>for (uint8 i = 0; i < 9; i++)\<close>, from index \<open>i\<close> on.
  The counter never exceeds 9, so it is a natural number here.\<close>

function isBoardFull_from :: "CellState list \<Rightarrow> nat \<Rightarrow> bool" where
  "isBoardFull_from b i =
    (if i < 9 then (if b ! i = Empty then False else isBoardFull_from b (i + 1)) else True)"
  by pat_completeness auto
termination
  by (relation "measure (\<lambda>(b, i). 9 - i)") auto

declare isBoardFull_from.simps [simp del]

definition isBoardFull :: "CellState list \<Rightarrow> bool" where
  "isBoardFull b = isBoardFull_from b 0"

section \<open>Game state machine\<close>

text \<open>
  A function of the contract runs on the storage and either reverts, with an error and
  the storage as its writes had left it at that point, or returns a value and the new
  storage. \<open>call\<close> is the transaction around it: a revert discards every write and every
  event of the call, so the storage after a reverted call is the storage before it.
\<close>

type_synonym 'a body = "storage \<Rightarrow> (error \<times> storage) + ('a \<times> storage)"

definition call :: "'a body \<Rightarrow> storage \<Rightarrow> (error + 'a) \<times> storage" where
  "call f s = (case f s of Inl (e, dirty) \<Rightarrow> (Inl e, s) | Inr (r, s') \<Rightarrow> (Inr r, s'))"

text \<open>\<open>x++\<close> of solidity 0.8: the incremented value, or no value where it panics.\<close>

definition checked_inc :: "'a::len word \<Rightarrow> 'a word option" where
  "checked_inc x = (if x = - 1 then None else Some (x + 1))"

definition emit :: "event \<Rightarrow> storage \<Rightarrow> storage" where
  "emit e s = s\<lparr>events := events s @ [e]\<rparr>"

text \<open>The loop of \<open>createGame\<close> that writes \<open>Empty\<close> into the nine cells, from index
  \<open>i\<close> on.\<close>

function clearBoard_from :: "CellState list \<Rightarrow> nat \<Rightarrow> CellState list" where
  "clearBoard_from b i = (if i < 9 then clearBoard_from (b[i := Empty]) (i + 1) else b)"
  by pat_completeness auto
termination
  by (relation "measure (\<lambda>(b, i). 9 - i)") auto

declare clearBoard_from.simps [simp del]

definition createGame_body :: "address \<Rightarrow> uint256 \<Rightarrow> uint256 body" where
  "createGame_body sender now s =
    (case checked_inc (gameCounter s) of
       None \<Rightarrow> Inl (Panic, s)
     | Some n \<Rightarrow>
        let gameId = gameCounter s;
            s1 = s\<lparr>gameCounter := n\<rparr>;
            newGame = (games s1 gameId)\<lparr>player1 := sender, player2 := 0,
               currentTurn := sender, winner := 0, state := WaitingForPlayer,
               createdAt := now, lastMoveAt := now\<rparr>;
            newGame' = newGame\<lparr>board := clearBoard_from (board newGame) 0\<rparr>;
            s2 = s1\<lparr>games := (games s1)(gameId := newGame')\<rparr>;
            s3 = s2\<lparr>playerGames := (playerGames s2)(sender := playerGames s2 sender @ [gameId])\<rparr>
        in Inr (gameId, emit (GameCreated gameId sender) s3))"

definition joinGame_body :: "address \<Rightarrow> uint256 \<Rightarrow> uint256 \<Rightarrow> unit body" where
  "joinGame_body sender now gameId s =
    (let game = games s gameId in
     if player1 game = 0 then Inl (GameNotFound, s)
     else if state game \<noteq> WaitingForPlayer then Inl (GameNotWaitingForPlayer, s)
     else if player1 game = sender then Inl (CannotJoinOwnGame, s)
     else
       let game' = game\<lparr>player2 := sender, state := InProgress, lastMoveAt := now\<rparr>;
           s1 = s\<lparr>games := (games s)(gameId := game')\<rparr>;
           s2 = s1\<lparr>playerGames := (playerGames s1)(sender := playerGames s1 sender @ [gameId])\<rparr>;
           p1 = player1 (games s2 gameId)
       in case checked_inc (playerGamesPlayed s2 p1) of
            None \<Rightarrow> Inl (Panic, s2)
          | Some n1 \<Rightarrow>
             let s3 = s2\<lparr>playerGamesPlayed := (playerGamesPlayed s2)(p1 := n1)\<rparr>
             in (case checked_inc (playerGamesPlayed s3 sender) of
                   None \<Rightarrow> Inl (Panic, s3)
                 | Some n2 \<Rightarrow>
                    let s4 = s3\<lparr>playerGamesPlayed := (playerGamesPlayed s3)(sender := n2)\<rparr>
                    in Inr ((), emit (GameJoined gameId sender) s4)))"

text \<open>
  Modelled from the spec: \<open>_safeMint\<close> is inherited from the ERC721 base contract, which
  is not among the sources. The spec's \<open>mint\<close> "records owner" and "always succeeds given
  valid inputs"; the identifier is allocated and the notification emitted by
  \<open>_mintWinnerNFT\<close> below.
\<close>

definition safeMint :: "address \<Rightarrow> uint256 \<Rightarrow> storage \<Rightarrow> storage" where
  "safeMint to tokenId s = s\<lparr>tokenOwner := (tokenOwner s)(tokenId := to)\<rparr>"

definition mintWinnerNFT :: "address \<Rightarrow> uint256 \<Rightarrow> unit body" where
  "mintWinnerNFT winner_addr gameId s =
    (case checked_inc (tokenIdCounter s) of
       None \<Rightarrow> Inl (Panic, s)
     | Some n \<Rightarrow>
        let tokenId = tokenIdCounter s;
            s1 = s\<lparr>tokenIdCounter := n\<rparr>;
            s2 = safeMint winner_addr tokenId s1
        in Inr ((), emit (WinnerNFTMinted tokenId winner_addr gameId) s2))"

text \<open>The mark of a participant, as \<open>makeMove\<close> computes it:
  \<open>(msg.sender == game.player1) ? CellState.X : CellState.O\<close>.\<close>

definition markOf :: "Game \<Rightarrow> address \<Rightarrow> CellState" where
  "markOf game who = (if who = player1 game then MarkX else MarkO)"

definition setGame :: "uint256 \<Rightarrow> Game \<Rightarrow> storage \<Rightarrow> storage" where
  "setGame gameId game s = s\<lparr>games := (games s)(gameId := game)\<rparr>"

definition makeMove_body :: "address \<Rightarrow> uint256 \<Rightarrow> uint256 \<Rightarrow> uint8 \<Rightarrow> unit body" where
  "makeMove_body sender now gameId position s =
    (let game = games s gameId in
     if player1 game = 0 then Inl (GameNotFound, s)
     else if state game \<noteq> InProgress then Inl (GameNotInProgress, s)
     else if state game = Finished then Inl (GameAlreadyFinished, s)
     else if sender \<noteq> player1 game \<and> sender \<noteq> player2 game then Inl (NotAPlayer, s)
     else if sender \<noteq> currentTurn game then Inl (NotYourTurn, s)
     else if position \<ge> 9 then Inl (InvalidPosition, s)
     else if board game ! unat position \<noteq> Empty then Inl (CellNotEmpty, s)
     else
       let mark = markOf game sender;
           game1 = game\<lparr>board := (board game)[unat position := mark], lastMoveAt := now\<rparr>;
           s1 = emit (MoveMade gameId sender position) (setGame gameId game1 s)
       in if checkWinner (board game1) mark then
            let game2 = game1\<lparr>winner := sender, state := Finished\<rparr>;
                s2 = setGame gameId game2 s1
            in case checked_inc (playerWins s2 sender) of
                 None \<Rightarrow> Inl (Panic, s2)
               | Some w \<Rightarrow>
                  let s3 = s2\<lparr>playerWins := (playerWins s2)(sender := w)\<rparr>
                  in (case mintWinnerNFT sender gameId s3 of
                        Inl err \<Rightarrow> Inl err
                      | Inr (u, s4) \<Rightarrow> Inr ((), emit (GameWon gameId sender) s4))
          else if isBoardFull (board game1) then
            Inr ((), emit (GameDraw gameId) (setGame gameId (game1\<lparr>state := Draw\<rparr>) s1))
          else
            Inr ((), setGame gameId
                  (game1\<lparr>currentTurn := (if sender = player1 game1 then player2 game1
                                          else player1 game1)\<rparr>) s1))"

text \<open>The three external functions as transactions. \<open>sender\<close> is \<open>msg.sender\<close> and
  \<open>now\<close> is \<open>block.timestamp\<close>.\<close>

definition createGame :: "address \<Rightarrow> uint256 \<Rightarrow> storage \<Rightarrow> (error + uint256) \<times> storage" where
  "createGame sender now = call (createGame_body sender now)"

definition joinGame :: "address \<Rightarrow> uint256 \<Rightarrow> uint256 \<Rightarrow> storage \<Rightarrow> (error + unit) \<times> storage" where
  "joinGame sender now gameId = call (joinGame_body sender now gameId)"

definition makeMove ::
  "address \<Rightarrow> uint256 \<Rightarrow> uint256 \<Rightarrow> uint8 \<Rightarrow> storage \<Rightarrow> (error + unit) \<times> storage" where
  "makeMove sender now gameId position = call (makeMove_body sender now gameId position)"

text \<open>\<open>getGame\<close>, a view function: it reads \<open>games[gameId]\<close> and has no \<open>revert\<close>.\<close>

definition getGame ::
  "storage \<Rightarrow> uint256 \<Rightarrow>
     error + (address \<times> address \<times> CellState list \<times> address \<times> address \<times> GameState)" where
  "getGame s gameId =
    (let game = games s gameId
     in Inr (player1 game, player2 game, board game, currentTurn game, winner game, state game))"

text \<open>The states the contract can be in: the state after the constructor, and the state
  after any transaction on such a state. The environment authenticates the caller, and no
  account has the zero address.\<close>

inductive reachable :: "storage \<Rightarrow> bool" where
  reach_initial: "reachable initial"
| reach_createGame: "reachable s \<Longrightarrow> sender \<noteq> 0 \<Longrightarrow> reachable (snd (createGame sender now s))"
| reach_joinGame: "reachable s \<Longrightarrow> sender \<noteq> 0 \<Longrightarrow> reachable (snd (joinGame sender now gameId s))"
| reach_makeMove:
    "reachable s \<Longrightarrow> sender \<noteq> 0 \<Longrightarrow> reachable (snd (makeMove sender now gameId position s))"

section \<open>Trophy metadata\<close>

text \<open>
  \<open>bytes\<close> and \<open>string\<close> values are lists of 8-bit characters. The \<open>uint256\<close>
  arithmetic of \<open>_base64Encode\<close> is arithmetic on natural numbers here: its operands
  are bytes (below 256), a \<open>triple\<close> (below \<open>2 ^ 24\<close>) and positions in the two
  buffers, and none of them can reach \<open>2 ^ 256\<close>.
\<close>

definition TABLE :: string where
  "TABLE = ''ABCDEFGHIJKLMNOPQRSTUVWXYZabcdefghijklmnopqrstuvwxyz0123456789+/''"

text \<open>
  The \<open>while\<close> loop of \<open>_base64Encode\<close>: \<open>i\<close> is the read position in \<open>data\<close>,
  \<open>j\<close> the write position in \<open>result\<close>. Each \<open>data[i++]\<close> guarded by \<open>i < len\<close>
  reads a byte and advances, or yields 0 and leaves \<open>i\<close> alone.
\<close>

function base64Encode_loop :: "string \<Rightarrow> nat \<Rightarrow> nat \<Rightarrow> string \<Rightarrow> string" where
  "base64Encode_loop data i j result =
    (if i < length data then
       let a = (of_char (data ! i) :: nat);
           i1 = i + 1;
           b = (if i1 < length data then of_char (data ! i1) else 0);
           i2 = (if i1 < length data then i1 + 1 else i1);
           c = (if i2 < length data then of_char (data ! i2) else 0);
           i3 = (if i2 < length data then i2 + 1 else i2);
           triple = push_bit 16 a + push_bit 8 b + c;
           result1 = result[j := TABLE ! (drop_bit 18 triple AND 0x3F)];
           result2 = result1[j + 1 := TABLE ! (drop_bit 12 triple AND 0x3F)];
           result3 = result2[j + 2 := TABLE ! (drop_bit 6 triple AND 0x3F)];
           result4 = result3[j + 3 := TABLE ! (triple AND 0x3F)]
       in base64Encode_loop data i3 (j + 4) result4
     else result)"
  by pat_completeness auto
termination
  by (relation "measure (\<lambda>(data, i, j, result). length data - i)") (auto simp: Let_def)

declare base64Encode_loop.simps [simp del]

text \<open>The block after the comment \<open>// Padding\<close>.\<close>

definition base64Encode_pad :: "nat \<Rightarrow> nat \<Rightarrow> string \<Rightarrow> string" where
  "base64Encode_pad len encodedLen result =
    (let m = len mod 3
     in if m > 0 then
          (let result1 = result[encodedLen - 1 := CHR ''='']
           in if m = 1 then result1[encodedLen - 2 := CHR ''=''] else result1)
        else result)"

text \<open>\<open>_base64Encode\<close>; \<open>new bytes(encodedLen)\<close> is a buffer of zero bytes.\<close>

definition base64Encode :: "string \<Rightarrow> string" where
  "base64Encode data =
    (let len = length data in
     if len = 0 then []
     else
       let encodedLen = 4 * ((len + 2) div 3);
           result = replicate encodedLen (CHR 0x00)
       in base64Encode_pad len encodedLen (base64Encode_loop data 0 0 result))"

text \<open>\<open>_toString\<close>: the first loop counts the decimal digits, the second one writes them
  from the last position backwards. \<open>digits\<close> is at least 1 whenever the second loop
  decrements it, since it holds the number of digits of \<open>value\<close> still to write.\<close>

function toString_count :: "uint256 \<Rightarrow> nat \<Rightarrow> nat" where
  "toString_count temp digits =
    (if temp \<noteq> 0 then toString_count (temp div 10) (digits + 1) else digits)"
  by pat_completeness auto
termination
proof (relation "measure (\<lambda>(temp, digits). unat temp)")
  show "wf (measure (\<lambda>(temp, digits). unat temp))" by simp
next
  fix temp :: uint256 and digits :: nat
  assume "temp \<noteq> 0"
  then have "0 < unat temp" by (simp add: unat_gt_0)
  then have "unat temp div 10 < unat temp" by simp
  then show "((temp div 10, digits + 1), (temp, digits)) \<in> measure (\<lambda>(temp, digits). unat temp)"
    by (simp add: unat_div)
qed

function toString_fill :: "uint256 \<Rightarrow> nat \<Rightarrow> string \<Rightarrow> string" where
  "toString_fill v digits buffer =
    (if v \<noteq> 0 then
       toString_fill (v div 10) (digits - 1)
         (buffer[digits - 1 := char_of (48 + unat (v mod 10))])
     else buffer)"
  by pat_completeness auto
termination
proof (relation "measure (\<lambda>(v, digits, buffer). unat v)")
  show "wf (measure (\<lambda>(v, digits, buffer). unat v))" by simp
next
  fix v :: uint256 and digits :: nat and buffer :: string
  assume "v \<noteq> 0"
  then have "0 < unat v" by (simp add: unat_gt_0)
  then have "unat v div 10 < unat v" by simp
  then show "((v div 10, digits - 1, buffer[digits - 1 := char_of (48 + unat (v mod 10))]),
              (v, digits, buffer)) \<in> measure (\<lambda>(v, digits, buffer). unat v)"
    by (simp add: unat_div)
qed

declare toString_count.simps [simp del] toString_fill.simps [simp del]

definition toString :: "uint256 \<Rightarrow> string" where
  "toString v =
    (if v = 0 then ''0''
     else let digits = toString_count v 0
          in toString_fill v digits (replicate digits (CHR 0x00)))"

text \<open>\<open>_generateSVG\<close>\<close>

definition generateSVG :: "uint256 \<Rightarrow> string" where
  \<open>generateSVG tokenId =
     ''<svg xmlns="http://www.w3.org/2000/svg" width="350" height="350">''
   @ ''<rect width="100%" height="100%" fill="#1a1a2e"/>''
   @ ''<text x="175" y="100" text-anchor="middle" fill="#00d9ff" font-size="24" font-family="Arial">TicTacToe</text>''
   @ ''<text x="175" y="140" text-anchor="middle" fill="#00d9ff" font-size="20" font-family="Arial">WINNER</text>''
   @ ''<text x="175" y="200" text-anchor="middle" fill="#ffd700" font-size="60" font-family="Arial">#''
   @ toString tokenId
   @ ''</text>''
   @ ''<text x="175" y="280" text-anchor="middle" fill="#888" font-size="14" font-family="Arial">On-Chain Victory</text>''
   @ ''</svg>''\<close>

text \<open>\<open>tokenURI\<close>: the JSON document, and the data URI that carries its encoding.\<close>

definition tokenURI_json :: "uint256 \<Rightarrow> string" where
  \<open>tokenURI_json tokenId =
     ''{"name":"TicTacToe Winner #''
   @ toString tokenId
   @ ''","description":"This NFT proves you won a game of TicTacToe on the blockchain!","image":"data:image/svg+xml;base64,''
   @ base64Encode (generateSVG tokenId)
   @ ''"}''\<close>

definition tokenURI :: "uint256 \<Rightarrow> string" where
  "tokenURI tokenId = ''data:application/json;base64,'' @ base64Encode (tokenURI_json tokenId)"

section \<open>Specification-level definitions\<close>

text \<open>
  The preconditions of \<open>MakeMove\<close> in the words and in the order of the specification:
  each entry pairs "this precondition is violated" with the error the specification
  names for it. "No record" is what the contract tests: the creator of the game is the
  zero address.
\<close>

definition spec_preconditions :: "address \<Rightarrow> uint256 \<Rightarrow> uint8 \<Rightarrow> storage \<Rightarrow> (bool \<times> error) list" where
  "spec_preconditions caller gameId position s =
    (let game = games s gameId in
     [(player1 game = 0, GameNotFound),
      (state game \<noteq> InProgress, GameNotInProgress),
      (caller \<noteq> player1 game \<and> caller \<noteq> player2 game, NotAPlayer),
      (caller \<noteq> currentTurn game, NotYourTurn),
      (unat position \<notin> {0..8}, InvalidPosition),
      (board game ! unat position \<noteq> Empty, CellNotEmpty)])"

text \<open>The six tests of \<open>makeMove\<close> all pass.\<close>

definition movePasses :: "address \<Rightarrow> uint256 \<Rightarrow> uint8 \<Rightarrow> storage \<Rightarrow> bool" where
  "movePasses sender gameId position s =
    (let game = games s gameId in
     player1 game \<noteq> 0 \<and> state game = InProgress
     \<and> (sender = player1 game \<or> sender = player2 game)
     \<and> sender = currentTurn game \<and> unat position \<le> 8
     \<and> board game ! unat position = Empty)"

text \<open>The board after the caller's mark is placed.\<close>

definition placed :: "address \<Rightarrow> uint256 \<Rightarrow> uint8 \<Rightarrow> storage \<Rightarrow> CellState list" where
  "placed sender gameId position s =
    (board (games s gameId))[unat position := markOf (games s gameId) sender]"

text \<open>The three tests of \<open>joinGame\<close> all pass.\<close>

definition joinPasses :: "address \<Rightarrow> uint256 \<Rightarrow> storage \<Rightarrow> bool" where
  "joinPasses sender gameId s =
    (let game = games s gameId in
     player1 game \<noteq> 0 \<and> state game = WaitingForPlayer \<and> player1 game \<noteq> sender)"

text \<open>
  The invariant of a game record: the board has nine cells; the winner is set exactly in
  state \<open>Finished\<close>, where it is a participant whose mark fills a line; no mark fills a
  line while the game is waiting or in progress; a drawn board is full and has no line.
\<close>

definition game_ok :: "Game \<Rightarrow> bool" where
  "game_ok G \<longleftrightarrow> length (board G) = 9 \<and>
    (case state G of
       WaitingForPlayer \<Rightarrow> winner G = 0
          \<and> \<not> checkWinner (board G) MarkX \<and> \<not> checkWinner (board G) MarkO
     | InProgress \<Rightarrow> winner G = 0
          \<and> \<not> checkWinner (board G) MarkX \<and> \<not> checkWinner (board G) MarkO
     | Finished \<Rightarrow> winner G \<noteq> 0 \<and> (winner G = player1 G \<or> winner G = player2 G)
          \<and> checkWinner (board G) (markOf G (winner G))
     | Draw \<Rightarrow> winner G = 0 \<and> isBoardFull (board G)
          \<and> \<not> checkWinner (board G) MarkX \<and> \<not> checkWinner (board G) MarkO)"

text \<open>The invariant of the registry: every record is well formed, the identifiers from
  \<open>gameCounter\<close> on have never been written, and the ones below have a creator.\<close>

definition games_ok :: "storage \<Rightarrow> bool" where
  "games_ok s \<longleftrightarrow> (\<forall>g. game_ok (games s g))
     \<and> (\<forall>g. gameCounter s \<le> g \<longrightarrow> games s g = zeroGame)
     \<and> (\<forall>g. g < gameCounter s \<longrightarrow> player1 (games s g) \<noteq> 0)"

text \<open>The games an identity takes part in that have been joined, and the games it has
  won, among the allocated identifiers \<open>0, \<dots>, gameCounter - 1\<close>.\<close>

definition joinedBy :: "storage \<Rightarrow> address \<Rightarrow> uint256 \<Rightarrow> bool" where
  "joinedBy s a g \<longleftrightarrow> state (games s g) \<noteq> WaitingForPlayer
     \<and> (player1 (games s g) = a \<or> player2 (games s g) = a)"

definition wonBy :: "storage \<Rightarrow> address \<Rightarrow> uint256 \<Rightarrow> bool" where
  "wonBy s a g \<longleftrightarrow> state (games s g) = Finished \<and> winner (games s g) = a"

definition allocatedIds :: "storage \<Rightarrow> uint256 list" where
  "allocatedIds s = map word_of_nat [0..<unat (gameCounter s)]"

text \<open>The invariant of the player ledger: each counter is the number of such games.\<close>

definition stats_ok :: "storage \<Rightarrow> bool" where
  "stats_ok s \<longleftrightarrow> (\<forall>a. unat (playerGamesPlayed s a) = card {g. joinedBy s a g}
      \<and> unat (playerWins s a) = card {g. wonBy s a g})"

text \<open>
  The encoding in the words of the specification: each group of three input bytes gives
  four symbols of the 64-symbol alphabet, and a final group that is short by two bytes or
  by one byte gives two or three symbols followed by the pad symbol.
\<close>

definition symbols :: "nat \<Rightarrow> nat \<Rightarrow> nat \<Rightarrow> string" where
  "symbols a b c =
    (let triple = push_bit 16 a + push_bit 8 b + c
     in [TABLE ! (drop_bit 18 triple AND 0x3F), TABLE ! (drop_bit 12 triple AND 0x3F),
         TABLE ! (drop_bit 6 triple AND 0x3F), TABLE ! (triple AND 0x3F)])"

fun spec_encode :: "string \<Rightarrow> string" where
  "spec_encode [] = []"
| "spec_encode [a] = take 2 (symbols (of_char a) 0 0) @ ''==''"
| "spec_encode [a, b] = take 3 (symbols (of_char a) (of_char b) 0) @ ''=''"
| "spec_encode (a # b # c # rest) =
     symbols (of_char a) (of_char b) (of_char c) @ spec_encode rest"

text \<open>The symbols the loop writes, before padding.\<close>

fun groups :: "string \<Rightarrow> string" where
  "groups [] = []"
| "groups [a] = symbols (of_char a) 0 0"
| "groups [a, b] = symbols (of_char a) (of_char b) 0"
| "groups (a # b # c # rest) = symbols (of_char a) (of_char b) (of_char c) @ groups rest"

text \<open>
  Standard base64 decoding (RFC 4648), as a client applies it to the payload; the contract
  has no decoder. Four symbols give three bytes; a last group ending in one or two pad
  symbols gives two bytes or one byte; anything else is rejected.
\<close>

definition decodeSymbol :: "char \<Rightarrow> nat option" where
  "decodeSymbol c = map_of (zip TABLE [0..<64]) c"

fun base64Decode :: "string \<Rightarrow> string option" where
  "base64Decode [] = Some []"
| "base64Decode (c0 # c1 # c2 # c3 # rest) =
    (case (decodeSymbol c0, decodeSymbol c1) of
       (Some v0, Some v1) \<Rightarrow>
         if c2 = CHR ''='' then
           (if c3 = CHR ''='' \<and> rest = []
            then Some [char_of ((v0 * 64 + v1) div 16)]
            else None)
         else
           (case decodeSymbol c2 of
              None \<Rightarrow> None
            | Some v2 \<Rightarrow>
                if c3 = CHR ''='' then
                  (if rest = []
                   then Some [char_of (((v0 * 64 + v1) * 64 + v2) div 1024),
                              char_of (((v0 * 64 + v1) * 64 + v2) div 4)]
                   else None)
                else
                  (case decodeSymbol c3 of
                     None \<Rightarrow> None
                   | Some v3 \<Rightarrow>
                       map_option
                         (\<lambda>r. char_of ((((v0 * 64 + v1) * 64 + v2) * 64 + v3) div 65536)
                            # char_of ((((v0 * 64 + v1) * 64 + v2) * 64 + v3) div 256)
                            # char_of ((((v0 * 64 + v1) * 64 + v2) * 64 + v3))
                            # r)
                         (base64Decode rest)))
     | _ \<Rightarrow> None)"
| "base64Decode _ = None"

text \<open>
  The encoded image embedded in a metadata document: the document ends with the value of
  its \<open>image\<close> field and \<open>"}\<close>, and the value is a data URI whose header
  \<open>data:image/svg+xml;base64,\<close> precedes the payload.
\<close>

definition imagePayload :: "string \<Rightarrow> string" where
  "imagePayload doc =
    drop (length ''data:image/svg+xml;base64,'')
      (rev (takeWhile (\<lambda>c. c \<noteq> CHR 0x22) (drop 2 (rev doc))))"

section \<open>Scenarios\<close>

text \<open>
  The winning game of the test suite: identity 1 creates game 0, identity 2 joins, and
  they play 0, 3, 1, 4, 2 in turn; the last move completes the top row.
\<close>

definition afterJoin :: storage where
  "afterJoin = snd (joinGame 2 100 0 (snd (createGame 1 100 initial)))"

definition beforeWin :: storage where
  "beforeWin = snd (makeMove 2 104 0 4 (snd (makeMove 1 103 0 1
     (snd (makeMove 2 102 0 3 (snd (makeMove 1 101 0 0 afterJoin)))))))"

definition afterWin :: storage where
  "afterWin = snd (makeMove 1 105 0 2 beforeWin)"

section \<open>Board engine: properties\<close>

lemma isBoardFull_from_iff:
  "isBoardFull_from b i \<longleftrightarrow> (\<forall>k. i \<le> k \<and> k < 9 \<longrightarrow> b ! k \<noteq> Empty)"
proof (induction b i rule: isBoardFull_from.induct)
  case (1 b i)
  show ?case
  proof (cases "i < 9")
    case False
    then have "isBoardFull_from b i" by (subst isBoardFull_from.simps) simp
    with False show ?thesis by auto
  next
    case True
    show ?thesis
    proof (cases "b ! i = Empty")
      case e: True
      from True e have "\<not> isBoardFull_from b i"
        by (subst isBoardFull_from.simps) simp
      with True e show ?thesis by auto
    next
      case ne: False
      have "isBoardFull_from b i = isBoardFull_from b (i + 1)"
        using True ne by (subst isBoardFull_from.simps) simp
      also have "\<dots> \<longleftrightarrow> (\<forall>k. i + 1 \<le> k \<and> k < 9 \<longrightarrow> b ! k \<noteq> Empty)"
        using "1.IH" True ne by simp
      also have "\<dots> \<longleftrightarrow> (\<forall>k. i \<le> k \<and> k < 9 \<longrightarrow> b ! k \<noteq> Empty)"
      proof (intro iffI allI impI)
        fix k assume h: "\<forall>k. i + 1 \<le> k \<and> k < 9 \<longrightarrow> b ! k \<noteq> Empty" and k: "i \<le> k \<and> k < 9"
        show "b ! k \<noteq> Empty"
        proof (cases "k = i")
          case True
          with ne show ?thesis by simp
        next
          case False
          with k have "i + 1 \<le> k \<and> k < 9" by arith
          with h show ?thesis by blast
        qed
      next
        fix k assume h: "\<forall>k. i \<le> k \<and> k < 9 \<longrightarrow> b ! k \<noteq> Empty" and k: "i + 1 \<le> k \<and> k < 9"
        from k have "i \<le> k \<and> k < 9" by arith
        with h show "b ! k \<noteq> Empty" by blast
      qed
      finally show ?thesis .
    qed
  qed
qed

lemma isBoardFull_iff: "isBoardFull b \<longleftrightarrow> (\<forall>k<9. b ! k \<noteq> Empty)"
  by (simp add: isBoardFull_def isBoardFull_from_iff)

text \<open>
  Claim C2. For every board and every mark, \<open>_checkWinner\<close> returns true if and only if
  at least one of the eight fixed lines \<open>{0,1,2}\<close>, \<open>{3,4,5}\<close>, \<open>{6,7,8}\<close>, \<open>{0,3,6}\<close>,
  \<open>{1,4,7}\<close>, \<open>{2,5,8}\<close>, \<open>{0,4,8}\<close>, \<open>{2,4,6}\<close> has all three of its cells equal to the
  mark.
\<close>

theorem checkWinner_iff_line:
  "checkWinner b mark \<longleftrightarrow>
     (\<exists>line \<in> set WINNING_COMBINATIONS. \<forall>i \<in> set line. b ! i = mark)"
  by (auto simp add: checkWinner_def WINNING_COMBINATIONS_def)

theorem checkWinner_iff_line_witness:
  "checkWinner [MarkX, MarkO, MarkO, Empty, MarkX, Empty, Empty, Empty, MarkX] MarkX
   \<and> (\<exists>line \<in> set WINNING_COMBINATIONS.
        \<forall>i \<in> set line. [MarkX, MarkO, MarkO, Empty, MarkX, Empty, Empty, Empty, MarkX] ! i = MarkX)
   \<and> \<not> checkWinner [MarkX, MarkO, MarkO, Empty, MarkX, Empty, Empty, Empty, MarkX] MarkO"
  using checkWinner_iff_line [of "[MarkX, MarkO, MarkO, Empty, MarkX, Empty, Empty, Empty, MarkX]" MarkX]
  by (simp add: checkWinner_def)

section \<open>Game state machine: the tests of makeMove\<close>

lemma uint8_ge_9: "(9 \<le> (p::uint8)) \<longleftrightarrow> unat p \<notin> {0..8}"
  by (auto simp: word_le_nat_alt)

lemma mintWinnerNFT_error: "mintWinnerNFT w g s = Inl (e, d) \<Longrightarrow> e = Panic"
  by (auto simp: mintWinnerNFT_def Let_def split: option.splits)

text \<open>
  Claim C10. \<open>makeMove\<close> never fails with \<open>GameAlreadyFinished\<close>: for every caller, game
  identifier, position and state of the contract, the result is a success or another
  error, because a game in state \<open>Finished\<close> already fails the test
  \<open>state != InProgress\<close> that comes first.
\<close>

lemma makeMove_never_GameAlreadyFinished:
  "fst (makeMove sender now gameId position s) \<noteq> Inl GameAlreadyFinished"
  by (auto simp: makeMove_def call_def makeMove_body_def Let_def 
      split: option.splits sum.splits prod.splits dest: mintWinnerNFT_error)

lemma makeMove_body_late_error:
  assumes "player1 (games s gameId) \<noteq> 0" "state (games s gameId) = InProgress"
    "sender = player1 (games s gameId) \<or> sender = player2 (games s gameId)"
    "sender = currentTurn (games s gameId)" "unat position \<in> {0..8}"
    "board (games s gameId) ! unat position = Empty"
    "makeMove_body sender now gameId position s = Inl (e, d)"
  shows "e = Panic"
  using assms
  by (auto simp: makeMove_body_def Let_def uint8_ge_9
      split: option.splits sum.splits prod.splits if_splits dest: mintWinnerNFT_error)

lemma makeMove_GameNotFound:
  "player1 (games s gameId) = 0 \<Longrightarrow>
   makeMove sender now gameId position s = (Inl GameNotFound, s)"
  by (simp add: makeMove_def call_def makeMove_body_def Let_def)

lemma makeMove_GameNotInProgress:
  "player1 (games s gameId) \<noteq> 0 \<Longrightarrow> state (games s gameId) \<noteq> InProgress \<Longrightarrow>
   makeMove sender now gameId position s = (Inl GameNotInProgress, s)"
  by (simp add: makeMove_def call_def makeMove_body_def Let_def)

lemma makeMove_NotAPlayer:
  "player1 (games s gameId) \<noteq> 0 \<Longrightarrow> state (games s gameId) = InProgress \<Longrightarrow>
   sender \<noteq> player1 (games s gameId) \<Longrightarrow> sender \<noteq> player2 (games s gameId) \<Longrightarrow>
   makeMove sender now gameId position s = (Inl NotAPlayer, s)"
  by (simp add: makeMove_def call_def makeMove_body_def Let_def)

lemma makeMove_NotYourTurn:
  "player1 (games s gameId) \<noteq> 0 \<Longrightarrow> state (games s gameId) = InProgress \<Longrightarrow>
   sender = player1 (games s gameId) \<or> sender = player2 (games s gameId) \<Longrightarrow>
   sender \<noteq> currentTurn (games s gameId) \<Longrightarrow>
   makeMove sender now gameId position s = (Inl NotYourTurn, s)"
  by (simp add: makeMove_def call_def makeMove_body_def Let_def)

lemma makeMove_InvalidPosition:
  "player1 (games s gameId) \<noteq> 0 \<Longrightarrow> state (games s gameId) = InProgress \<Longrightarrow>
   sender = player1 (games s gameId) \<or> sender = player2 (games s gameId) \<Longrightarrow>
   sender = currentTurn (games s gameId) \<Longrightarrow> \<not> unat position \<le> 8 \<Longrightarrow>
   makeMove sender now gameId position s = (Inl InvalidPosition, s)"
  by (simp add: makeMove_def call_def makeMove_body_def Let_def uint8_ge_9)

lemma makeMove_CellNotEmpty:
  "player1 (games s gameId) \<noteq> 0 \<Longrightarrow> state (games s gameId) = InProgress \<Longrightarrow>
   sender = player1 (games s gameId) \<or> sender = player2 (games s gameId) \<Longrightarrow>
   sender = currentTurn (games s gameId) \<Longrightarrow> unat position \<le> 8 \<Longrightarrow>
   board (games s gameId) ! unat position \<noteq> Empty \<Longrightarrow>
   makeMove sender now gameId position s = (Inl CellNotEmpty, s)"
  by (simp add: makeMove_def call_def makeMove_body_def Let_def uint8_ge_9)

lemmas makeMove_rejects = makeMove_GameNotFound makeMove_GameNotInProgress makeMove_NotAPlayer
  makeMove_NotYourTurn makeMove_InvalidPosition makeMove_CellNotEmpty

text \<open>
  Claim C4. \<open>makeMove\<close> validates its preconditions in the order of the specification
  and reports the first violated one: \<open>GameNotFound\<close>, then \<open>GameNotInProgress\<close>, then
  \<open>NotAPlayer\<close>, then \<open>NotYourTurn\<close>, then \<open>InvalidPosition\<close>, then \<open>CellNotEmpty\<close>.
  When no precondition is violated, none of these six errors is reported.
\<close>

theorem makeMove_reports_first_violation:
  "(\<forall>e. map_option snd (find fst (spec_preconditions sender gameId position s)) = Some e
        \<longrightarrow> makeMove sender now gameId position s = (Inl e, s))
   \<and> (find fst (spec_preconditions sender gameId position s) = None
        \<longrightarrow> fst (makeMove sender now gameId position s)
              \<notin> Inl ` snd ` set (spec_preconditions sender gameId position s))"
proof (intro conjI allI impI)
  fix e
  assume "map_option snd (find fst (spec_preconditions sender gameId position s)) = Some e"
  then show "makeMove sender now gameId position s = (Inl e, s)"
    by (auto simp: spec_preconditions_def Let_def makeMove_rejects
          split: if_splits)
next
  assume n: "find fst (spec_preconditions sender gameId position s) = None"
  show "fst (makeMove sender now gameId position s)
              \<notin> Inl ` snd ` set (spec_preconditions sender gameId position s)"
  proof
    assume "fst (makeMove sender now gameId position s)
              \<in> Inl ` snd ` set (spec_preconditions sender gameId position s)"
    then obtain e where e: "fst (makeMove sender now gameId position s) = Inl e"
      "e \<noteq> Panic" by (auto simp: spec_preconditions_def Let_def)
    then obtain d where "makeMove_body sender now gameId position s = Inl (e, d)"
      by (auto simp: makeMove_def call_def split: sum.splits prod.splits)
    with n have "e = Panic"
      by (intro makeMove_body_late_error[of s gameId sender position now e d])
         (auto simp: spec_preconditions_def Let_def split: if_splits)
    with e show False by simp
  qed
qed

section \<open>Game state machine: the outcomes of an accepted move\<close>

lemma makeMove_win:
  assumes "movePasses sender gameId position s"
    and "checkWinner (placed sender gameId position s) (markOf (games s gameId) sender)"
    and "playerWins s sender \<noteq> - 1" and "tokenIdCounter s \<noteq> - 1"
  shows "makeMove sender now gameId position s =
    (Inr (), s\<lparr>games := (games s)(gameId := (games s gameId)
                  \<lparr>board := placed sender gameId position s, lastMoveAt := now,
                   winner := sender, state := Finished\<rparr>),
              playerWins := (playerWins s)(sender := playerWins s sender + 1),
              tokenIdCounter := tokenIdCounter s + 1,
              tokenOwner := (tokenOwner s)(tokenIdCounter s := sender),
              events := events s @ [MoveMade gameId sender position,
                 WinnerNFTMinted (tokenIdCounter s) sender gameId, GameWon gameId sender]\<rparr>)"
  using assms
  by (auto simp add: movePasses_def placed_def makeMove_def call_def makeMove_body_def Let_def
      uint8_ge_9 setGame_def emit_def checked_inc_def mintWinnerNFT_def safeMint_def)

lemma makeMove_win_panic:
  assumes "movePasses sender gameId position s"
    and "checkWinner (placed sender gameId position s) (markOf (games s gameId) sender)"
    and "playerWins s sender = - 1 \<or> tokenIdCounter s = - 1"
  shows "makeMove sender now gameId position s = (Inl Panic, s)"
  using assms
  by (auto simp add: movePasses_def placed_def makeMove_def call_def makeMove_body_def Let_def
      uint8_ge_9 setGame_def emit_def checked_inc_def mintWinnerNFT_def safeMint_def)

lemma makeMove_draw:
  assumes "movePasses sender gameId position s"
    and "\<not> checkWinner (placed sender gameId position s) (markOf (games s gameId) sender)"
    and "isBoardFull (placed sender gameId position s)"
  shows "makeMove sender now gameId position s =
    (Inr (), s\<lparr>games := (games s)(gameId := (games s gameId)
                  \<lparr>board := placed sender gameId position s, lastMoveAt := now,
                   state := Draw\<rparr>),
              events := events s @ [MoveMade gameId sender position, GameDraw gameId]\<rparr>)"
  using assms
  by (auto simp add: movePasses_def placed_def makeMove_def call_def makeMove_body_def Let_def
      uint8_ge_9 setGame_def emit_def)

lemma makeMove_continue:
  assumes "movePasses sender gameId position s"
    and "\<not> checkWinner (placed sender gameId position s) (markOf (games s gameId) sender)"
    and "\<not> isBoardFull (placed sender gameId position s)"
  shows "makeMove sender now gameId position s =
    (Inr (), s\<lparr>games := (games s)(gameId := (games s gameId)
                  \<lparr>board := placed sender gameId position s, lastMoveAt := now,
                   currentTurn := (if sender = player1 (games s gameId)
                       then player2 (games s gameId) else player1 (games s gameId))\<rparr>),
              events := events s @ [MoveMade gameId sender position]\<rparr>)"
  using assms
  by (auto simp add: movePasses_def placed_def makeMove_def call_def makeMove_body_def Let_def
      uint8_ge_9 setGame_def emit_def)

lemma makeMove_not_passes:
  assumes "\<not> movePasses sender gameId position s"
  shows "\<exists>e. makeMove sender now gameId position s = (Inl e, s) \<and> e \<noteq> Panic"
  using assms unfolding movePasses_def Let_def
  by (metis makeMove_rejects error.distinct)

lemma makeMove_accepted_passes:
  "fst (makeMove sender now gameId position s) = Inr () \<Longrightarrow> movePasses sender gameId position s"
proof (rule ccontr)
  assume a: "fst (makeMove sender now gameId position s) = Inr ()"
    and "\<not> movePasses sender gameId position s"
  then obtain e where "makeMove sender now gameId position s = (Inl e, s)"
    using makeMove_not_passes by blast
  with a show False by simp
qed

text \<open>The accepted calls are the ones that pass the six tests, unless a winning move
  finds one of the two counters it increments at its largest value.\<close>

lemma makeMove_accepted_iff:
  "fst (makeMove sender now gameId position s) = Inr () \<longleftrightarrow>
     movePasses sender gameId position s
     \<and> (checkWinner (placed sender gameId position s) (markOf (games s gameId) sender)
          \<longrightarrow> playerWins s sender \<noteq> - 1 \<and> tokenIdCounter s \<noteq> - 1)"
proof (cases "movePasses sender gameId position s")
  case False
  then show ?thesis using makeMove_accepted_passes by blast
next
  case p: True
  show ?thesis
  proof (cases "checkWinner (placed sender gameId position s) (markOf (games s gameId) sender)")
    case w: True
    show ?thesis
    proof (cases "playerWins s sender = - 1 \<or> tokenIdCounter s = - 1")
      case True
      then show ?thesis using makeMove_win_panic [OF p w True, of now] w by auto
    next
      case False
      then show ?thesis using makeMove_win [OF p w, of now] p by auto
    qed
  next
    case nw: False
    show ?thesis
      using makeMove_draw [OF p nw, of now] makeMove_continue [OF p nw, of now] p nw
      by (cases "isBoardFull (placed sender gameId position s)") auto
  qed
qed

text \<open>
  Claim C1. For every accepted call of \<open>makeMove\<close> exactly one of three outcomes occurs,
  tested in this order: (1) if the caller's mark now completes a line, the winner is the
  caller, the state is \<open>Finished\<close> and the turn is not switched; (2) otherwise, if the
  board is full, the state is \<open>Draw\<close> and the turn is not switched; (3) otherwise the
  state stays \<open>InProgress\<close> and the turn passes to the other participant.
\<close>

theorem makeMove_three_outcomes:
  assumes "fst (makeMove sender now gameId position s) = Inr ()"
  shows "let game = games s gameId;
             mark = markOf game sender;
             b = placed sender gameId position s;
             game' = games (snd (makeMove sender now gameId position s)) gameId
         in movePasses sender gameId position s \<and> board game' = b \<and>
            (if checkWinner b mark
               then winner game' = sender \<and> state game' = Finished
                    \<and> currentTurn game' = currentTurn game
             else if isBoardFull b
               then state game' = Draw \<and> currentTurn game' = currentTurn game
                    \<and> winner game' = winner game
             else state game' = InProgress \<and> winner game' = winner game
                  \<and> currentTurn game' =
                      (if sender = player1 game then player2 game else player1 game))"
proof -
  have p: "movePasses sender gameId position s"
    using assms by (rule makeMove_accepted_passes)
  then have ip: "state (games s gameId) = InProgress"
    by (simp add: movePasses_def Let_def)
  show ?thesis
  proof (cases "checkWinner (placed sender gameId position s) (markOf (games s gameId) sender)")
    case True
    have "\<not> (playerWins s sender = - 1 \<or> tokenIdCounter s = - 1)"
      using makeMove_win_panic [OF p True, of now] assms by auto
    then show ?thesis
      using makeMove_win [OF p True, of now] True p by (simp add: Let_def)
  next
    case False
    show ?thesis
    proof (cases "isBoardFull (placed sender gameId position s)")
      case True
      then show ?thesis
        using makeMove_draw [OF p False True, of now] False p by (simp add: Let_def)
    next
      case nf: False
      then show ?thesis
        using makeMove_continue [OF p False nf, of now] False ip p by (simp add: Let_def)
    qed
  qed
qed

section \<open>Reverted calls\<close>

lemma call_reverted: "fst (call f s) = Inl e \<Longrightarrow> snd (call f s) = s"
  by (auto simp: call_def split: sum.splits prod.splits)

lemma joinGame_body_declared_error:
  "joinGame_body sender now gameId s = Inl (e, d) \<Longrightarrow> e \<noteq> Panic \<Longrightarrow> d = s"
  by (auto simp: joinGame_body_def Let_def split: if_splits option.splits)

lemma makeMove_body_declared_error:
  assumes "makeMove_body sender now gameId position s = Inl (e, d)" "e \<noteq> Panic"
  shows "d = s"
proof (cases "movePasses sender gameId position s")
  case True
  then show ?thesis
    using makeMove_body_late_error [of s gameId sender position now e d] assms
    by (auto simp: movePasses_def Let_def)
next
  case False
  then obtain e' where "makeMove sender now gameId position s = (Inl e', s)"
    using makeMove_not_passes by blast
  with False assms show ?thesis unfolding movePasses_def makeMove_body_def Let_def
    by (auto simp: uint8_ge_9 split: if_splits)
qed

text \<open>
  Claim C6. A call of \<open>joinGame\<close> or \<open>makeMove\<close> that fails with any error mutates
  nothing and emits nothing: the whole storage (game records, per-player counters,
  participant indices, trophy state, event log) is as before the call. For the declared
  errors the contract has not even written anything when it reverts.
\<close>

theorem failed_call_leaves_storage:
  "(fst (joinGame sender now gameId s) = Inl e \<longrightarrow>
      snd (joinGame sender now gameId s) = s
      \<and> (e \<noteq> Panic \<longrightarrow> joinGame_body sender now gameId s = Inl (e, s)))
   \<and> (fst (makeMove sender now gameId position s) = Inl e \<longrightarrow>
      snd (makeMove sender now gameId position s) = s
      \<and> (e \<noteq> Panic \<longrightarrow> makeMove_body sender now gameId position s = Inl (e, s)))"
proof (intro conjI impI)
  assume "fst (joinGame sender now gameId s) = Inl e"
  then show "snd (joinGame sender now gameId s) = s"
    unfolding joinGame_def by (rule call_reverted)
next
  assume a: "fst (joinGame sender now gameId s) = Inl e" and "e \<noteq> Panic"
  then obtain d where "joinGame_body sender now gameId s = Inl (e, d)"
    by (auto simp: joinGame_def call_def split: sum.splits prod.splits)
  with \<open>e \<noteq> Panic\<close> show "joinGame_body sender now gameId s = Inl (e, s)"
    using joinGame_body_declared_error by blast
next
  assume "fst (makeMove sender now gameId position s) = Inl e"
  then show "snd (makeMove sender now gameId position s) = s"
    unfolding makeMove_def by (rule call_reverted)
next
  assume a: "fst (makeMove sender now gameId position s) = Inl e" and "e \<noteq> Panic"
  then obtain d where "makeMove_body sender now gameId position s = Inl (e, d)"
    by (auto simp: makeMove_def call_def split: sum.splits prod.splits)
  with \<open>e \<noteq> Panic\<close> show "makeMove_body sender now gameId position s = Inl (e, s)"
    using makeMove_body_declared_error by blast
qed

text \<open>
  Claim C5, as amended. A call of \<open>makeMove\<close> with position 9 always fails and changes
  nothing; it fails with \<open>InvalidPosition\<close> when the game exists, is in progress and it
  is the caller's turn, and with the error of the earlier test that fails otherwise.
\<close>

theorem makeMove_position_9:
  "makeMove sender now gameId 9 s =
    (let game = games s gameId in
     (Inl (if player1 game = 0 then GameNotFound
           else if state game \<noteq> InProgress then GameNotInProgress
           else if sender \<noteq> player1 game \<and> sender \<noteq> player2 game then NotAPlayer
           else if sender \<noteq> currentTurn game then NotYourTurn
           else InvalidPosition), s))"
  by (simp add: makeMove_def call_def makeMove_body_def Let_def)

text \<open>
  Claim C5 as stated fails: on a game identifier without a record, position 9 is
  answered with \<open>GameNotFound\<close>.
\<close>

theorem makeMove_position_9_counterexample:
  "fst (makeMove 1 0 0 9 initial) = Inl GameNotFound
   \<and> fst (makeMove 1 0 0 9 initial) \<noteq> Inl InvalidPosition"
  by (simp add: makeMove_def call_def makeMove_body_def Let_def initial_def zeroGame_def)

section \<open>Invariants of the reachable states\<close>

lemma nth_list_update_any:
  "(xs[p := v]) ! i = (if i = p \<and> p < length xs then v else xs ! i)"
proof (cases "p < length xs")
  case True
  then show ?thesis by (simp add: nth_list_update)
next
  case False
  then have "xs[p := v] = xs" by (intro list_update_beyond) arith
  with False show ?thesis by simp
qed

lemma clearBoard_from_length: "length (clearBoard_from b i) = length b"
proof (induction b i rule: clearBoard_from.induct)
  case (1 b i)
  then show ?case by (subst clearBoard_from.simps) simp
qed

lemma clearBoard_from_nth:
  "clearBoard_from b i ! k = (if i \<le> k \<and> k < 9 \<and> k < length b then Empty else b ! k)"
proof (induction b i rule: clearBoard_from.induct)
  case (1 b i)
  show ?case
  proof (cases "i < 9")
    case True
    then have "clearBoard_from b i ! k = clearBoard_from (b[i := Empty]) (i + 1) ! k"
      by (subst clearBoard_from.simps) simp
    also have "\<dots> = (if i + 1 \<le> k \<and> k < 9 \<and> k < length b then Empty else b[i := Empty] ! k)"
      using "1.IH" True by simp
    also have "\<dots> = (if i \<le> k \<and> k < 9 \<and> k < length b then Empty else b ! k)"
      using True by (auto simp: nth_list_update_any)
    finally show ?thesis .
  next
    case False
    then have "clearBoard_from b i = b" by (subst clearBoard_from.simps) simp
    with False show ?thesis by auto
  qed
qed

lemma clearBoard_from_0: "length b = 9 \<Longrightarrow> clearBoard_from b 0 = replicate 9 Empty"
  by (simp add: list_eq_iff_nth_eq clearBoard_from_length clearBoard_from_nth)

lemma checkWinner_update_other:
  assumes "b ! p = Empty" "m \<noteq> m'" "m' \<noteq> Empty"
  shows "checkWinner (b[p := m]) m' = checkWinner b m'"
proof -
  have eq: "((b[p := m]) ! i = m') = (b ! i = m')" for i
  proof (cases "i = p \<and> p < length b")
    case True
    then show ?thesis using assms by auto
  next
    case False
    then show ?thesis by (auto simp: nth_list_update_any)
  qed
  show ?thesis unfolding checkWinner_def by (simp only: eq)
qed

lemma createGame_ok:
  assumes "gameCounter s \<noteq> - 1"
  shows "createGame sender now s =
    (Inr (gameCounter s),
     s\<lparr>gameCounter := gameCounter s + 1,
       games := (games s)(gameCounter s := (games s (gameCounter s))
          \<lparr>player1 := sender, player2 := 0, currentTurn := sender, winner := 0,
           state := WaitingForPlayer, createdAt := now, lastMoveAt := now,
           board := clearBoard_from (board (games s (gameCounter s))) 0\<rparr>),
       playerGames := (playerGames s)(sender := playerGames s sender @ [gameCounter s]),
       events := events s @ [GameCreated (gameCounter s) sender]\<rparr>)"
  using assms
  by (simp add: createGame_def call_def createGame_body_def checked_inc_def Let_def emit_def)

lemma createGame_panic:
  "gameCounter s = - 1 \<Longrightarrow> createGame sender now s = (Inl Panic, s)"
  by (simp add: createGame_def call_def createGame_body_def checked_inc_def)

lemma joinGame_ok:
  assumes "joinPasses sender gameId s"
    and "playerGamesPlayed s (player1 (games s gameId)) \<noteq> - 1"
    and "playerGamesPlayed s sender \<noteq> - 1"
  shows "joinGame sender now gameId s =
    (Inr (),
     s\<lparr>games := (games s)(gameId := (games s gameId)
          \<lparr>player2 := sender, state := InProgress, lastMoveAt := now\<rparr>),
       playerGames := (playerGames s)(sender := playerGames s sender @ [gameId]),
       playerGamesPlayed := (playerGamesPlayed s)
          (player1 (games s gameId) := playerGamesPlayed s (player1 (games s gameId)) + 1,
           sender := playerGamesPlayed s sender + 1),
       events := events s @ [GameJoined gameId sender]\<rparr>)"
  using assms
  by (auto simp add: joinPasses_def joinGame_def call_def joinGame_body_def checked_inc_def
      Let_def emit_def)

lemma joinGame_fails:
  assumes "\<not> (joinPasses sender gameId s
     \<and> playerGamesPlayed s (player1 (games s gameId)) \<noteq> - 1
     \<and> playerGamesPlayed s sender \<noteq> - 1)"
  shows "\<exists>e. joinGame sender now gameId s = (Inl e, s)"
  using assms
  by (auto simp add: joinPasses_def joinGame_def call_def joinGame_body_def checked_inc_def
      Let_def emit_def)

lemma word_inc_neq_0: "(x::'a::len word) \<noteq> - 1 \<Longrightarrow> x + 1 \<noteq> 0"
  by (metis add.commute add_eq_0_iff)

lemma unat_inc: "(x::'a::len word) \<noteq> - 1 \<Longrightarrow> unat (x + 1) = Suc (unat x)"
  using unatSuc [of x] word_inc_neq_0 [of x] by (simp add: add.commute)

lemma word_inc_le_iff: "(x::'a::len word) \<noteq> - 1 \<Longrightarrow> x + 1 \<le> y \<longleftrightarrow> x < y"
  by (simp add: word_le_nat_alt word_less_nat_alt unat_inc Suc_le_eq)

lemma word_less_inc_iff: "(x::'a::len word) \<noteq> - 1 \<Longrightarrow> y < x + 1 \<longleftrightarrow> y \<le> x"
  by (simp add: word_le_nat_alt word_less_nat_alt unat_inc less_Suc_eq_le)

lemma checkWinner_empty_board:
  "m \<noteq> Empty \<Longrightarrow> \<not> checkWinner (replicate 9 Empty) m"
  by (auto simp: checkWinner_def)

lemma game_ok_zeroGame: "game_ok zeroGame"
  unfolding game_ok_def by (simp add: zeroGame_def checkWinner_empty_board)

lemma games_ok_initial: "games_ok initial"
  by (simp add: games_ok_def initial_def game_ok_zeroGame)

lemma not_found_of_zero:
  "games_ok s \<Longrightarrow> player1 (games s g) \<noteq> 0 \<Longrightarrow> g < gameCounter s"
  unfolding games_ok_def by (metis not_le_imp_less zeroGame_def Game.select_convs(1))

lemma games_ok_createGame:
  assumes ok: "games_ok s" and nz: "sender \<noteq> 0"
  shows "games_ok (snd (createGame sender now s))"
proof (cases "gameCounter s = - 1")
  case True
  then show ?thesis using ok by (simp add: createGame_panic)
next
  case False
  define s' where "s' = snd (createGame sender now s)"
  define G' where "G' = zeroGame\<lparr>player1 := sender, player2 := 0, currentTurn := sender,
      winner := 0, state := WaitingForPlayer, createdAt := now, lastMoveAt := now,
      board := replicate 9 Empty\<rparr>"
  have z: "games s (gameCounter s) = zeroGame"
    using ok by (simp add: games_ok_def)
  have b: "clearBoard_from (board zeroGame) 0 = replicate 9 Empty"
    by (simp add: zeroGame_def clearBoard_from_0)
  have g': "games s' = (games s)(gameCounter s := G')"
    and c': "gameCounter s' = gameCounter s + 1"
    by (simp_all add: s'_def G'_def createGame_ok [OF False] z b)
  have okG': "game_ok G'" and p1: "player1 G' \<noteq> 0"
    using nz by (simp_all add: G'_def game_ok_def checkWinner_empty_board)
  have "games_ok s'"
    unfolding games_ok_def g' c'
  proof (intro conjI allI impI)
    fix g
    show "game_ok (((games s)(gameCounter s := G')) g)"
      using ok okG' by (simp add: games_ok_def)
  next
    fix g
    assume "gameCounter s + 1 \<le> g"
    then have "gameCounter s < g" using False by (simp add: word_inc_le_iff)
    then show "((games s)(gameCounter s := G')) g = zeroGame"
      using ok by (auto simp: games_ok_def)
  next
    fix g
    assume "g < gameCounter s + 1"
    then have "g \<le> gameCounter s" using False by (simp add: word_less_inc_iff)
    then show "player1 (((games s)(gameCounter s := G')) g) \<noteq> 0"
      using ok p1 by (auto simp: games_ok_def)
  qed
  then show ?thesis by (simp add: s'_def)
qed

lemma games_ok_joinGame:
  assumes ok: "games_ok s"
  shows "games_ok (snd (joinGame sender now gameId s))"
proof (cases "joinPasses sender gameId s
     \<and> playerGamesPlayed s (player1 (games s gameId)) \<noteq> - 1
     \<and> playerGamesPlayed s sender \<noteq> - 1")
  case False
  then obtain e where "joinGame sender now gameId s = (Inl e, s)"
    using joinGame_fails by blast
  then show ?thesis using ok by simp
next
  case True
  define s' where "s' = snd (joinGame sender now gameId s)"
  define G where "G = games s gameId"
  have g': "games s' = (games s)(gameId := G\<lparr>player2 := sender, state := InProgress,
      lastMoveAt := now\<rparr>)"
    and c': "gameCounter s' = gameCounter s"
    using True by (simp_all add: s'_def G_def joinGame_ok)
  have w: "state G = WaitingForPlayer" and p: "player1 G \<noteq> 0"
    using True by (simp_all add: joinPasses_def G_def Let_def)
  have lt: "gameId < gameCounter s"
    using not_found_of_zero [OF ok] p by (simp add: G_def)
  have okG: "game_ok G" using ok by (simp add: games_ok_def G_def)
  have "game_ok (G\<lparr>player2 := sender, state := InProgress, lastMoveAt := now\<rparr>)"
    using okG w by (simp add: game_ok_def)
  then have "games_ok s'"
    using ok lt p unfolding games_ok_def g' c' by (auto simp: G_def)
  then show ?thesis by (simp add: s'_def)
qed

lemma markOf_cases: "markOf G a = MarkX \<or> markOf G a = MarkO"
  by (simp add: markOf_def)

lemma checkWinner_after_move:
  assumes "b ! p = Empty" "\<not> checkWinner b MarkX" "\<not> checkWinner b MarkO"
    "m = MarkX \<or> m = MarkO" "\<not> checkWinner (b[p := m]) m"
  shows "\<not> checkWinner (b[p := m]) MarkX \<and> \<not> checkWinner (b[p := m]) MarkO"
  using assms checkWinner_update_other [of b p MarkX MarkO] 
    checkWinner_update_other [of b p MarkO MarkX] by auto

lemma games_ok_makeMove:
  assumes ok: "games_ok s" and nz: "sender \<noteq> 0"
  shows "games_ok (snd (makeMove sender now gameId position s))"
proof (cases "fst (makeMove sender now gameId position s)")
  case (Inl e)
  then have "snd (makeMove sender now gameId position s) = s"
    unfolding makeMove_def by (rule call_reverted)
  then show ?thesis using ok by simp
next
  case (Inr u)
  then have acc: "fst (makeMove sender now gameId position s) = Inr ()" by simp
  define s' where "s' = snd (makeMove sender now gameId position s)"
  define G where "G = games s gameId"
  define b where "b = placed sender gameId position s"
  define m where "m = markOf G sender"
  have p: "movePasses sender gameId position s"
    using acc by (rule makeMove_accepted_passes)
  have okG: "game_ok G" using ok by (simp add: games_ok_def G_def)
  have ip: "state G = InProgress" and pl: "sender = player1 G \<or> sender = player2 G"
    and e: "board G ! unat position = Empty" and p1: "player1 G \<noteq> 0"
    using p by (auto simp add: movePasses_def G_def Let_def)
  have b: "b = (board G)[unat position := m]"
    by (simp add: b_def placed_def G_def m_def)
  have lb: "length b = 9" using okG by (simp add: b game_ok_def)
  have w0: "winner G = 0" and nx: "\<not> checkWinner (board G) MarkX"
    and no: "\<not> checkWinner (board G) MarkO"
    using okG ip by (simp_all add: game_ok_def)
  have lt: "gameId < gameCounter s"
    using not_found_of_zero [OF ok] p1 by (simp add: G_def)
  have c': "gameCounter s' = gameCounter s"
    using makeMove_win [OF p, of now] makeMove_win_panic [OF p, of now]
      makeMove_draw [OF p, of now] makeMove_continue [OF p, of now] acc
    by (cases "checkWinner b m"; cases "isBoardFull b";
        cases "playerWins s sender = - 1 \<or> tokenIdCounter s = - 1")
       (auto simp: s'_def b_def m_def G_def)
  have "\<exists>G'. games s' = (games s)(gameId := G') \<and> game_ok G' \<and> player1 G' = player1 G"
  proof (cases "checkWinner b m")
    case True
    then have np: "\<not> (playerWins s sender = - 1 \<or> tokenIdCounter s = - 1)"
      using makeMove_win_panic [OF p, of now] acc by (auto simp: b_def m_def G_def)
    have "games s' = (games s)(gameId := G\<lparr>board := b, lastMoveAt := now,
                   winner := sender, state := Finished\<rparr>)"
      using makeMove_win [OF p, of now] True np by (simp add: s'_def b_def m_def G_def)
    moreover have "game_ok (G\<lparr>board := b, lastMoveAt := now,
                   winner := sender, state := Finished\<rparr>)"
      using True nz pl lb by (simp add: game_ok_def markOf_def m_def)
    ultimately show ?thesis by auto
  next
    case False
    have both: "\<not> checkWinner b MarkX \<and> \<not> checkWinner b MarkO"
      unfolding b using e nx no markOf_cases [of G sender] False
      by (intro checkWinner_after_move) (simp_all add: m_def b)
    show ?thesis
    proof (cases "isBoardFull b")
      case True
      have "games s' = (games s)(gameId := G\<lparr>board := b, lastMoveAt := now, state := Draw\<rparr>)"
        using makeMove_draw [OF p, of now] True False by (simp add: s'_def b_def m_def G_def)
      moreover have "game_ok (G\<lparr>board := b, lastMoveAt := now, state := Draw\<rparr>)"
        using True both w0 lb by (simp add: game_ok_def)
      ultimately show ?thesis by auto
    next
      case nf: False
      have "games s' = (games s)(gameId := G\<lparr>board := b, lastMoveAt := now,
                   currentTurn := (if sender = player1 G then player2 G else player1 G)\<rparr>)"
        using makeMove_continue [OF p, of now] nf False by (simp add: s'_def b_def m_def G_def)
      moreover have "game_ok (G\<lparr>board := b, lastMoveAt := now,
                   currentTurn := (if sender = player1 G then player2 G else player1 G)\<rparr>)"
        using both w0 lb ip by (simp add: game_ok_def)
      ultimately show ?thesis by auto
    qed
  qed
  then obtain G' where g': "games s' = (games s)(gameId := G')" and okG': "game_ok G'"
    and p1': "player1 G' = player1 G" by blast
  have "games_ok s'"
    using ok lt p1 okG' p1' unfolding games_ok_def g' c' by (auto simp: G_def)
  then show ?thesis by (simp add: s'_def)
qed

lemma reachable_games_ok: "reachable s \<Longrightarrow> games_ok s"
proof (induction rule: reachable.induct)
  case reach_initial
  show ?case by (rule games_ok_initial)
next
  case (reach_createGame s sender now)
  then show ?case by (simp add: games_ok_createGame)
next
  case (reach_joinGame s sender now gameId)
  then show ?case by (simp add: games_ok_joinGame)
next
  case (reach_makeMove s sender now gameId position)
  then show ?case by (simp add: games_ok_makeMove)
qed

text \<open>
  Claim C3. In every reachable state and for every game: the winner is set (not the zero
  address) if and only if the state is \<open>Finished\<close>; in state \<open>Finished\<close> the winner is
  \<open>player1\<close> or \<open>player2\<close> and the winner's mark fills a line; in state \<open>Draw\<close> the
  board is full and neither mark fills a line.
\<close>

theorem reachable_winner_and_terminal_states:
  assumes "reachable s"
  shows "let G = games s g in
    (winner G \<noteq> 0 \<longleftrightarrow> state G = Finished)
    \<and> (state G = Finished \<longrightarrow>
          (winner G = player1 G \<or> winner G = player2 G)
          \<and> checkWinner (board G) (markOf G (winner G)))
    \<and> (state G = Draw \<longrightarrow>
          isBoardFull (board G)
          \<and> \<not> checkWinner (board G) MarkX \<and> \<not> checkWinner (board G) MarkO)"
proof -
  have "game_ok (games s g)"
    using reachable_games_ok [OF assms] by (simp add: games_ok_def)
  then show ?thesis
    by (cases "state (games s g)") (simp_all add: game_ok_def Let_def)
qed

text \<open>
  Claim C9, as amended. For every game identifier that no \<open>createGame\<close> call has
  allocated, \<open>getGame\<close> does not fail: it returns the zero record (zero addresses, nine
  empty cells, state \<open>WaitingForPlayer\<close>).
\<close>

theorem getGame_unallocated:
  assumes "reachable s" and "gameCounter s \<le> gameId"
  shows "getGame s gameId = Inr (0, 0, replicate 9 Empty, 0, 0, WaitingForPlayer)"
  using reachable_games_ok [OF assms(1)] assms(2)
  by (simp add: games_ok_def getGame_def zeroGame_def)

text \<open>
  Claim C9 as stated fails: \<open>getGame\<close> on the identifier 0 of the freshly deployed
  contract does not return \<open>GameNotFound\<close>.
\<close>

theorem getGame_unallocated_counterexample:
  "getGame initial 0 \<noteq> Inl GameNotFound"
  by (simp add: getGame_def Let_def)

section \<open>Player ledger\<close>

lemma card_Collect_insert:
  fixes P :: "uint256 \<Rightarrow> bool"
  assumes "\<not> P g" "\<And>x. Q x \<longleftrightarrow> x = g \<or> P x"
  shows "card {x. Q x} = Suc (card {x. P x})"
proof -
  have "{x. Q x} = insert g {x. P x}" using assms(2) by auto
  moreover have "g \<notin> {x. P x}" using assms(1) by simp
  ultimately show ?thesis by simp
qed

lemma stats_ok_initial: "stats_ok initial"
  by (simp add: stats_ok_def initial_def joinedBy_def wonBy_def zeroGame_def)

lemma stats_ok_createGame:
  assumes st: "stats_ok s" and ok: "games_ok s"
  shows "stats_ok (snd (createGame sender now s))"
proof (cases "gameCounter s = - 1")
  case True
  then show ?thesis using st by (simp add: createGame_panic)
next
  case False
  define s' where "s' = snd (createGame sender now s)"
  have z: "state (games s (gameCounter s)) = WaitingForPlayer"
    using ok by (simp add: games_ok_def zeroGame_def)
  have j: "joinedBy s' a g = joinedBy s a g" and w: "wonBy s' a g = wonBy s a g" for a g
    using z by (auto simp: s'_def createGame_ok [OF False] joinedBy_def wonBy_def)
  have "playerGamesPlayed s' = playerGamesPlayed s" "playerWins s' = playerWins s"
    by (simp_all add: s'_def createGame_ok [OF False])
  then have "stats_ok s'" using st by (simp add: stats_ok_def j w)
  then show ?thesis by (simp add: s'_def)
qed

lemma stats_ok_joinGame:
  assumes st: "stats_ok s" 
  shows "stats_ok (snd (joinGame sender now gameId s))"
proof (cases "joinPasses sender gameId s
     \<and> playerGamesPlayed s (player1 (games s gameId)) \<noteq> - 1
     \<and> playerGamesPlayed s sender \<noteq> - 1")
  case False
  then obtain e where "joinGame sender now gameId s = (Inl e, s)"
    using joinGame_fails by blast
  then show ?thesis using st by simp
next
  case True
  define s' where "s' = snd (joinGame sender now gameId s)"
  define G where "G = games s gameId"
  have g': "games s' = (games s)(gameId := G\<lparr>player2 := sender, state := InProgress,
      lastMoveAt := now\<rparr>)"
    and pw: "playerWins s' = playerWins s"
    and pg: "playerGamesPlayed s' = (playerGamesPlayed s)
          (player1 G := playerGamesPlayed s (player1 G) + 1,
           sender := playerGamesPlayed s sender + 1)"
    using True by (simp_all add: s'_def G_def joinGame_ok)
  have wt: "state G = WaitingForPlayer" and ne: "player1 G \<noteq> sender"
    and n1: "playerGamesPlayed s (player1 G) \<noteq> - 1" and n2: "playerGamesPlayed s sender \<noteq> - 1"
    using True by (simp_all add: joinPasses_def G_def Let_def)
  have w: "wonBy s' a g = wonBy s a g" for a g
    using wt by (auto simp: wonBy_def g' G_def)
  have nj: "\<not> joinedBy s a gameId" for a
    using wt by (simp add: joinedBy_def G_def)
  have j: "joinedBy s' a g \<longleftrightarrow> (g = gameId \<and> (a = player1 G \<or> a = sender)) \<or> joinedBy s a g" for a g
    using wt by (auto simp: joinedBy_def g' G_def)
  have "unat (playerGamesPlayed s' a) = card {g. joinedBy s' a g}" for a
  proof (cases "a = player1 G \<or> a = sender")
    case True
    then have "card {g. joinedBy s' a g} = Suc (card {g. joinedBy s a g})"
      by (intro card_Collect_insert [of _ gameId]) (auto simp: j nj)
    moreover have "unat (playerGamesPlayed s' a) = Suc (unat (playerGamesPlayed s a))"
      using True ne n1 n2 by (auto simp: pg unat_inc)
    ultimately show ?thesis using st by (simp add: stats_ok_def)
  next
    case False
    then have "{g. joinedBy s' a g} = {g. joinedBy s a g}" by (auto simp: j)
    moreover have "playerGamesPlayed s' a = playerGamesPlayed s a"
      using False by (simp add: pg)
    ultimately show ?thesis using st by (simp add: stats_ok_def)
  qed
  then have "stats_ok s'" using st by (simp add: stats_ok_def pw w)
  then show ?thesis by (simp add: s'_def)
qed

lemma stats_ok_makeMove:
  assumes st: "stats_ok s"
  shows "stats_ok (snd (makeMove sender now gameId position s))"
proof (cases "fst (makeMove sender now gameId position s)")
  case (Inl e)
  then have "snd (makeMove sender now gameId position s) = s"
    unfolding makeMove_def by (rule call_reverted)
  then show ?thesis using st by simp
next
  case (Inr u)
  then have acc: "fst (makeMove sender now gameId position s) = Inr ()" by simp
  define s' where "s' = snd (makeMove sender now gameId position s)"
  define G where "G = games s gameId"
  define b where "b = placed sender gameId position s"
  define m where "m = markOf G sender"
  have p: "movePasses sender gameId position s"
    using acc by (rule makeMove_accepted_passes)
  have ip: "state G = InProgress"
    using p by (auto simp add: movePasses_def G_def Let_def)
  show ?thesis
  proof (cases "checkWinner b m")
    case True
    then have np: "playerWins s sender \<noteq> - 1" "tokenIdCounter s \<noteq> - 1"
      using makeMove_win_panic [OF p, of now] acc by (auto simp: b_def m_def G_def)
    have g': "games s' = (games s)(gameId := G\<lparr>board := b, lastMoveAt := now,
                   winner := sender, state := Finished\<rparr>)"
      and pg: "playerGamesPlayed s' = playerGamesPlayed s"
      and pw: "playerWins s' = (playerWins s)(sender := playerWins s sender + 1)"
      using makeMove_win [OF p, of now] True np by (simp_all add: s'_def b_def m_def G_def)
    have j: "joinedBy s' a g = joinedBy s a g" for a g
      using ip by (auto simp: joinedBy_def g' G_def)
    have nw: "\<not> wonBy s a gameId" for a
      using ip by (simp add: wonBy_def G_def)
    have w: "wonBy s' a g \<longleftrightarrow> (g = gameId \<and> a = sender) \<or> wonBy s a g" for a g
      using ip by (auto simp: wonBy_def g' G_def)
    have "unat (playerWins s' a) = card {g. wonBy s' a g}" for a
    proof (cases "a = sender")
      case True
      then have "card {g. wonBy s' a g} = Suc (card {g. wonBy s a g})"
        by (intro card_Collect_insert [of _ gameId]) (auto simp: w nw)
      moreover have "unat (playerWins s' a) = Suc (unat (playerWins s a))"
        using True np by (simp add: pw unat_inc)
      ultimately show ?thesis using st by (simp add: stats_ok_def)
    next
      case False
      then have "{g. wonBy s' a g} = {g. wonBy s a g}" by (auto simp: w)
      moreover have "playerWins s' a = playerWins s a" using False by (simp add: pw)
      ultimately show ?thesis using st by (simp add: stats_ok_def)
    qed
    then have "stats_ok s'" using st by (simp add: stats_ok_def pg j)
    then show ?thesis by (simp add: s'_def)
  next
    case False
    have "(\<forall>a g. joinedBy s' a g = joinedBy s a g \<and> wonBy s' a g = wonBy s a g)
      \<and> playerGamesPlayed s' = playerGamesPlayed s \<and> playerWins s' = playerWins s"
    proof (cases "isBoardFull b")
      case True
      have "makeMove sender now gameId position s =
        (Inr (), s\<lparr>games := (games s)(gameId := G\<lparr>board := b, lastMoveAt := now,
                   state := Draw\<rparr>),
              events := events s @ [MoveMade gameId sender position, GameDraw gameId]\<rparr>)"
        using makeMove_draw [OF p, of now] True False by (simp add: b_def m_def G_def)
      then have "games s' = (games s)(gameId := G\<lparr>board := b, lastMoveAt := now,
                   state := Draw\<rparr>)"
        and "playerGamesPlayed s' = playerGamesPlayed s" and "playerWins s' = playerWins s"
        by (simp_all add: s'_def)
      then show ?thesis using ip by (auto simp: joinedBy_def wonBy_def G_def)
    next
      case nf: False
      have "makeMove sender now gameId position s =
        (Inr (), s\<lparr>games := (games s)(gameId := G\<lparr>board := b, lastMoveAt := now,
                   currentTurn := (if sender = player1 G then player2 G else player1 G)\<rparr>),
              events := events s @ [MoveMade gameId sender position]\<rparr>)"
        using makeMove_continue [OF p, of now] nf False by (simp add: b_def m_def G_def)
      then have "games s' = (games s)(gameId := G\<lparr>board := b, lastMoveAt := now,
                   currentTurn := (if sender = player1 G then player2 G else player1 G)\<rparr>)"
        and "playerGamesPlayed s' = playerGamesPlayed s" and "playerWins s' = playerWins s"
        by (simp_all add: s'_def)
      then show ?thesis using ip by (auto simp: joinedBy_def wonBy_def G_def)
    qed
    then have j: "joinedBy s' a g = joinedBy s a g" and w: "wonBy s' a g = wonBy s a g"
      and pg: "playerGamesPlayed s' = playerGamesPlayed s"
      and pw: "playerWins s' = playerWins s" for a g by blast+
    have "stats_ok s'" using st by (simp add: stats_ok_def pg pw j w)
    then show ?thesis by (simp add: s'_def)
  qed
qed

lemma reachable_stats_ok: "reachable s \<Longrightarrow> stats_ok s"
proof (induction rule: reachable.induct)
  case reach_initial
  show ?case by (rule stats_ok_initial)
next
  case (reach_createGame s sender now)
  then show ?case by (simp add: stats_ok_createGame reachable_games_ok)
next
  case (reach_joinGame s sender now gameId)
  then show ?case by (simp add: stats_ok_joinGame)
next
  case (reach_makeMove s sender now gameId position)
  then show ?case by (simp add: stats_ok_makeMove)
qed

lemma unat_of_nat_below:
  "n < unat (c::uint256) \<Longrightarrow> unat (word_of_nat n :: uint256) = n"
proof -
  assume n: "n < unat c"
  have "unat c < 2 ^ LENGTH(256)" by (rule unsigned_less)
  with n have "n < 2 ^ LENGTH(256)" by (rule less_trans)
  then show ?thesis by (rule of_nat_inverse [OF refl])
qed

lemma set_allocatedIds: "set (allocatedIds s) = {g. g < gameCounter s}"
proof (intro set_eqI iffI)
  fix g assume "g \<in> set (allocatedIds s)"
  then obtain n where n: "n < unat (gameCounter s)" "g = word_of_nat n"
    by (auto simp: allocatedIds_def)
  then have "unat g = n" using unat_of_nat_below by blast
  with n(1) have "unat g < unat (gameCounter s)" by (simp only:)
  then show "g \<in> {g. g < gameCounter s}" by (simp only: word_less_nat_alt mem_Collect_eq)
next
  fix g assume "g \<in> {g. g < gameCounter s}"
  then have "unat g < unat (gameCounter s)" by (simp only: word_less_nat_alt mem_Collect_eq)
  then have "unat g \<in> set [0..<unat (gameCounter s)]" by simp
  then have "word_of_nat (unat g) \<in> set (allocatedIds s)"
    unfolding allocatedIds_def set_map by (rule imageI)
  then show "g \<in> set (allocatedIds s)" by simp
qed

lemma distinct_allocatedIds: "distinct (allocatedIds s)"
proof -
  have "inj_on (word_of_nat :: nat \<Rightarrow> uint256) (set [0..<unat (gameCounter s)])"
  proof (rule inj_onI)
    fix a b assume a: "a \<in> set [0..<unat (gameCounter s)]"
      and b: "b \<in> set [0..<unat (gameCounter s)]"
      and eq: "(word_of_nat a :: uint256) = word_of_nat b"
    from a have "a < unat (gameCounter s)" by simp
    then have ua: "unat (word_of_nat a :: uint256) = a" by (rule unat_of_nat_below)
    from b have "b < unat (gameCounter s)" by simp
    then have ub: "unat (word_of_nat b :: uint256) = b" by (rule unat_of_nat_below)
    from eq have "unat (word_of_nat a :: uint256) = unat (word_of_nat b :: uint256)"
      by (rule arg_cong)
    then show "a = b" unfolding ua ub .
  qed
  then show ?thesis unfolding allocatedIds_def by (simp add: distinct_map)
qed

lemma length_filter_allocated:
  assumes "\<And>g. P g \<Longrightarrow> g < gameCounter s"
  shows "length (filter P (allocatedIds s)) = card {g. P g}"
proof -
  have "length (filter P (allocatedIds s)) = card ({g. P g} \<inter> set (allocatedIds s))"
    using distinct_allocatedIds by (rule distinct_length_filter)
  also have "{g. P g} \<inter> set (allocatedIds s) = {g. P g}"
    using assms by (auto simp: set_allocatedIds)
  finally show ?thesis .
qed

text \<open>
  Claim C7. In every reachable state and for each identity, \<open>playerGamesPlayed\<close> is the
  number of joined games the identity takes part in (one increment per game, at join
  time, for the creator and for the joiner; a game created and never joined counts for
  nobody), and \<open>playerWins\<close> is the number of finished games whose winner it is (one
  increment per terminal win, for the winner only).
\<close>

theorem player_counters_count_games:
  assumes "reachable s"
  shows "unat (playerGamesPlayed s a) = length (filter (joinedBy s a) (allocatedIds s))
       \<and> unat (playerWins s a) = length (filter (wonBy s a) (allocatedIds s))"
proof -
  have ok: "games_ok s" and st: "stats_ok s"
    using assms by (simp_all add: reachable_games_ok reachable_stats_ok)
  have z: "g < gameCounter s" if "state (games s g) \<noteq> WaitingForPlayer" for g
  proof (rule ccontr)
    assume "\<not> g < gameCounter s"
    then have "games s g = zeroGame" using ok by (simp add: games_ok_def)
    with that show False by (simp add: zeroGame_def)
  qed
  have "length (filter (joinedBy s a) (allocatedIds s)) = card {g. joinedBy s a g}"
    by (rule length_filter_allocated) (simp add: joinedBy_def z)
  moreover have "length (filter (wonBy s a) (allocatedIds s)) = card {g. wonBy s a g}"
    by (rule length_filter_allocated) (simp add: wonBy_def z)
  ultimately show ?thesis using st by (simp add: stats_ok_def)
qed

section \<open>Trophy metadata: the encoding is invertible\<close>

lemma and_63: "(x::nat) AND 0x3F = x mod 64"
proof -
  have "(0x3F::nat) = mask 6" by (simp add: mask_eq_exp_minus_1)
  then have "x AND 0x3F = take_bit 6 x" by (simp add: take_bit_eq_mask)
  then show ?thesis by (simp add: take_bit_eq_mod)
qed

lemma symbols_arith:
  "symbols a b c =
    [TABLE ! ((a * 65536 + b * 256 + c) div 262144 mod 64),
     TABLE ! ((a * 65536 + b * 256 + c) div 4096 mod 64),
     TABLE ! ((a * 65536 + b * 256 + c) div 64 mod 64),
     TABLE ! ((a * 65536 + b * 256 + c) mod 64)]"
  by (simp add: symbols_def Let_def and_63 push_bit_eq_mult drop_bit_eq_div)

lemma div_64_join: "(x::nat) div 64 * 64 + x mod 64 = x"
  by simp

lemma sextets_join2:
  fixes t :: nat
  assumes "t < 16777216"
  shows "t div 262144 mod 64 * 64 + t div 4096 mod 64 = t div 4096"
proof -
  have a: "t div 262144 = t div 4096 div 64"
    by (simp add: div_mult2_eq [symmetric])
  have "t div 4096 div 64 < 64" using assms by (simp add: div_mult2_eq [symmetric] less_mult_imp_div_less)
  then show ?thesis unfolding a by (simp add: div_64_join)
qed

lemma sextets_join3:
  fixes t :: nat
  assumes "t < 16777216"
  shows "(t div 262144 mod 64 * 64 + t div 4096 mod 64) * 64 + t div 64 mod 64 = t div 64"
proof -
  have a: "t div 4096 = t div 64 div 64"
    by (simp add: div_mult2_eq [symmetric])
  show ?thesis unfolding sextets_join2 [OF assms] unfolding a by (rule div_64_join)
qed

lemma sextets_join4:
  fixes t :: nat
  assumes "t < 16777216"
  shows "((t div 262144 mod 64 * 64 + t div 4096 mod 64) * 64 + t div 64 mod 64) * 64
           + t mod 64 = t"
  unfolding sextets_join3 [OF assms] by (rule div_64_join)

lemma triple_bound:
  fixes a b c :: nat
  assumes "a < 256" "b < 256" "c < 256"
  shows "a * 65536 + b * 256 + c < 16777216"
  using assms by arith

lemma triple_bytes:
  fixes a b c :: nat
  assumes "b < 256" "c < 256"
  shows "(a * 65536 + b * 256 + c) div 65536 = a"
    and "(a * 65536 + b * 256 + c) div 256 mod 256 = b"
    and "(a * 65536 + b * 256 + c) mod 256 = c"
proof -
  have r: "b * 256 + c < 65536" using assms by linarith
  have e1: "a * 65536 + b * 256 + c = (b * 256 + c) + a * 65536" by linarith
  have e2: "a * 65536 + b * 256 + c = c + (a * 256 + b) * 256"
    by (simp add: add_mult_distrib)
  show "(a * 65536 + b * 256 + c) div 65536 = a"
    unfolding e1 using r by (simp only: div_mult_self1 div_less)
  have d: "(a * 65536 + b * 256 + c) div 256 = a * 256 + b"
    unfolding e2 using assms(2) by (simp only: div_mult_self1 div_less)
  show "(a * 65536 + b * 256 + c) div 256 mod 256 = b"
    unfolding d using assms(1) by (simp only: add.commute [of "a * 256" b] mod_mult_self1 mod_less)
  show "(a * 65536 + b * 256 + c) mod 256 = c"
    unfolding e2 using assms(2) by (simp only: mod_mult_self1 mod_less)
qed

lemma length_TABLE: "length TABLE = 64"
  by (simp add: TABLE_def)

lemma distinct_TABLE: "distinct TABLE"
  by (simp add: TABLE_def)

lemma decodeSymbol_TABLE: "k < 64 \<Longrightarrow> decodeSymbol (TABLE ! k) = Some k"
proof -
  assume k: "k < 64"
  have "map_of (zip TABLE [0..<64]) (TABLE ! k) = Some ([0..<64] ! k)"
    using k by (intro map_of_zip_nth) (simp_all add: length_TABLE distinct_TABLE)
  with k show ?thesis by (simp add: decodeSymbol_def)
qed

lemma TABLE_not_pad: "k < 64 \<Longrightarrow> TABLE ! k \<noteq> CHR ''=''"
proof -
  assume "k < 64"
  then have "TABLE ! k \<in> set TABLE" by (simp add: length_TABLE)
  moreover have "CHR ''='' \<notin> set TABLE" by (simp add: TABLE_def)
  ultimately show ?thesis by metis
qed

lemma of_char_less_256: "(of_char c :: nat) < 256"
proof -
  have "(of_char c :: nat) mod 256 < 256" by simp
  then show ?thesis by (simp only: of_char_mod_256)
qed

lemma char_of_div_256: "char_of ((t::nat) div 256 mod 256) = char_of (t div 256)"
  by (rule char_of_mod_256)

lemma mod_64_less: "(x::nat) mod 64 < 64"
  by simp

lemma base64Decode_quad:
  assumes "v0 < 64" "v1 < 64" "v2 < 64" "v3 < 64"
  shows "base64Decode (TABLE ! v0 # TABLE ! v1 # TABLE ! v2 # TABLE ! v3 # rest) =
    map_option
      (\<lambda>r. char_of ((((v0 * 64 + v1) * 64 + v2) * 64 + v3) div 65536)
         # char_of ((((v0 * 64 + v1) * 64 + v2) * 64 + v3) div 256)
         # char_of ((((v0 * 64 + v1) * 64 + v2) * 64 + v3))
         # r)
      (base64Decode rest)"
  using assms by (simp add: decodeSymbol_TABLE TABLE_not_pad)

lemma base64Decode_pad1:
  assumes "v0 < 64" "v1 < 64"
  shows "base64Decode [TABLE ! v0, TABLE ! v1, CHR ''='', CHR ''=''] =
    Some [char_of ((v0 * 64 + v1) div 16)]"
  using assms by (simp add: decodeSymbol_TABLE TABLE_not_pad)

lemma base64Decode_pad2:
  assumes "v0 < 64" "v1 < 64" "v2 < 64"
  shows "base64Decode [TABLE ! v0, TABLE ! v1, TABLE ! v2, CHR ''=''] =
    Some [char_of (((v0 * 64 + v1) * 64 + v2) div 1024),
          char_of (((v0 * 64 + v1) * 64 + v2) div 4)]"
  using assms by (simp add: decodeSymbol_TABLE TABLE_not_pad)

lemma decode_symbols:
  assumes "a < 256" "b < 256" "c < 256"
  shows "base64Decode (symbols a b c @ rest) =
    map_option (\<lambda>r. char_of a # char_of b # char_of c # r) (base64Decode rest)"
proof -
  define t where "t = a * 65536 + b * 256 + c"
  have t: "t < 16777216" unfolding t_def using assms by (rule triple_bound)
  have s: "symbols a b c = [TABLE ! (t div 262144 mod 64), TABLE ! (t div 4096 mod 64),
      TABLE ! (t div 64 mod 64), TABLE ! (t mod 64)]"
    unfolding t_def by (rule symbols_arith)
  have b0: "char_of (t div 65536) = char_of a"
    unfolding t_def using triple_bytes(1) [OF assms(2,3)] by simp
  have "char_of (t div 256 mod 256) = char_of b"
    unfolding t_def using triple_bytes(2) [OF assms(2,3)] by simp
  then have b1: "char_of (t div 256) = char_of b" by (simp only: char_of_div_256)
  have "char_of (t mod 256) = char_of c"
    unfolding t_def using triple_bytes(3) [OF assms(2,3)] by simp
  then have b2: "char_of t = char_of c" by (simp only: char_of_mod_256)
  note q = base64Decode_quad [OF mod_64_less [of "t div 262144"] mod_64_less [of "t div 4096"]
      mod_64_less [of "t div 64"] mod_64_less [of t], of rest]
  show ?thesis
    unfolding s append_Cons append_Nil q sextets_join4 [OF t] b0 b1 b2 ..
qed

lemma decode_symbols_1:
  assumes "a < 256"
  shows "base64Decode (take 2 (symbols a 0 0) @ ''=='') = Some [char_of a]"
proof -
  define t where "t = a * 65536 + 0 * 256 + (0::nat)"
  have t: "t < 16777216" unfolding t_def using assms by (intro triple_bound) simp_all
  have s: "symbols a 0 0 = [TABLE ! (t div 262144 mod 64), TABLE ! (t div 4096 mod 64),
      TABLE ! (t div 64 mod 64), TABLE ! (t mod 64)]"
    unfolding t_def by (rule symbols_arith)
  have "t div 4096 = a * 16" unfolding t_def by simp
  then have b0: "char_of (t div 4096 div 16) = char_of a" by simp
  have e: "take 2 [TABLE ! (t div 262144 mod 64), TABLE ! (t div 4096 mod 64),
      TABLE ! (t div 64 mod 64), TABLE ! (t mod 64)] @ ''=='' =
      [TABLE ! (t div 262144 mod 64), TABLE ! (t div 4096 mod 64), CHR ''='', CHR ''='']"
    by simp
  note q = base64Decode_pad1 [OF mod_64_less [of "t div 262144"] mod_64_less [of "t div 4096"]]
  show ?thesis
    unfolding s e q sextets_join2 [OF t] b0 ..
qed

lemma decode_symbols_2:
  assumes "a < 256" "b < 256"
  shows "base64Decode (take 3 (symbols a b 0) @ ''='') = Some [char_of a, char_of b]"
proof -
  define t where "t = a * 65536 + b * 256 + (0::nat)"
  have t: "t < 16777216" unfolding t_def using assms by (intro triple_bound) simp_all
  have s: "symbols a b 0 = [TABLE ! (t div 262144 mod 64), TABLE ! (t div 4096 mod 64),
      TABLE ! (t div 64 mod 64), TABLE ! (t mod 64)]"
    unfolding t_def by (rule symbols_arith)
  have d: "t div 64 = a * 1024 + b * 4" unfolding t_def by simp
  have "(a * 1024 + b * 4) div 1024 = a" using assms(2) by simp
  then have b0: "char_of (t div 64 div 1024) = char_of a" unfolding d by simp
  have "(a * 1024 + b * 4) div 4 = b + a * 256" by simp
  then have "char_of ((a * 1024 + b * 4) div 4) = char_of ((b + a * 256) mod 256)"
    by (simp only: char_of_mod_256)
  also have "\<dots> = char_of b" using assms(2) by simp
  finally have b1: "char_of (t div 64 div 4) = char_of b" unfolding d .
  have e: "take 3 [TABLE ! (t div 262144 mod 64), TABLE ! (t div 4096 mod 64),
      TABLE ! (t div 64 mod 64), TABLE ! (t mod 64)] @ ''='' =
      [TABLE ! (t div 262144 mod 64), TABLE ! (t div 4096 mod 64),
       TABLE ! (t div 64 mod 64), CHR ''='']"
    by (simp add: numeral_3_eq_3)
  note q = base64Decode_pad2 [OF mod_64_less [of "t div 262144"] mod_64_less [of "t div 4096"]
      mod_64_less [of "t div 64"]]
  show ?thesis
    unfolding s e q sextets_join3 [OF t] b0 b1 ..
qed

lemma base64Decode_spec_encode: "base64Decode (spec_encode data) = Some data"
proof (induction data rule: spec_encode.induct)
  case 1
  show ?case by simp
next
  case (2 a)
  show ?case using decode_symbols_1 [OF of_char_less_256 [of a]] by simp
next
  case (3 a b)
  show ?case using decode_symbols_2 [OF of_char_less_256 [of a] of_char_less_256 [of b]] by simp
next
  case (4 a b c rest)
  show ?case
    using decode_symbols [OF of_char_less_256 [of a] of_char_less_256 [of b]
        of_char_less_256 [of c], of "spec_encode rest"] "4.IH"
    by simp
qed

lemma loop_done: "\<not> i < length data \<Longrightarrow> base64Encode_loop data i j r = r"
  by (subst base64Encode_loop.simps) simp

lemma symbols_nth:
  "symbols a b c = [symbols a b c ! 0, symbols a b c ! 1, symbols a b c ! 2, symbols a b c ! 3]"
  by (simp add: symbols_def Let_def)

lemma symbols_nth':
  "[symbols a b c ! 0, symbols a b c ! 1, symbols a b c ! 2, symbols a b c ! 3] = symbols a b c"
  by (rule symbols_nth [symmetric])

lemma loop_three:
  assumes "i + 3 \<le> length data"
  shows "base64Encode_loop data i j r =
    base64Encode_loop data (i + 3) (j + 4)
      (r[j := symbols (of_char (data ! i)) (of_char (data ! (i + 1))) (of_char (data ! (i + 2))) ! 0,
         j + 1 := symbols (of_char (data ! i)) (of_char (data ! (i + 1))) (of_char (data ! (i + 2))) ! 1,
         j + 2 := symbols (of_char (data ! i)) (of_char (data ! (i + 1))) (of_char (data ! (i + 2))) ! 2,
         j + 3 := symbols (of_char (data ! i)) (of_char (data ! (i + 1))) (of_char (data ! (i + 2))) ! 3])"
proof -
  have e: "Suc (Suc (Suc i)) = i + 3" by simp
  have "i < length data" "i + 1 < length data" "i + 1 + 1 < length data"
    using assms by simp_all
  then show ?thesis
    by (subst base64Encode_loop.simps) (simp add: Let_def symbols_def e)
qed

lemma loop_two:
  assumes "i + 2 = length data"
  shows "base64Encode_loop data i j r =
    base64Encode_loop data (i + 2) (j + 4)
      (r[j := symbols (of_char (data ! i)) (of_char (data ! (i + 1))) 0 ! 0,
         j + 1 := symbols (of_char (data ! i)) (of_char (data ! (i + 1))) 0 ! 1,
         j + 2 := symbols (of_char (data ! i)) (of_char (data ! (i + 1))) 0 ! 2,
         j + 3 := symbols (of_char (data ! i)) (of_char (data ! (i + 1))) 0 ! 3])"
proof -
  have "i < length data" "i + 1 < length data" "\<not> i + 1 + 1 < length data"
    using assms by simp_all
  then show ?thesis
    by (subst base64Encode_loop.simps) (simp add: Let_def symbols_def)
qed

lemma loop_one:
  assumes "i + 1 = length data"
  shows "base64Encode_loop data i j r =
    base64Encode_loop data (i + 1) (j + 4)
      (r[j := symbols (of_char (data ! i)) 0 0 ! 0,
         j + 1 := symbols (of_char (data ! i)) 0 0 ! 1,
         j + 2 := symbols (of_char (data ! i)) 0 0 ! 2,
         j + 3 := symbols (of_char (data ! i)) 0 0 ! 3])"
proof -
  have "i < length data" "\<not> i + 1 < length data"
    using assms by simp_all
  then show ?thesis
    by (subst base64Encode_loop.simps) (simp add: Let_def symbols_def)
qed

lemma write_four:
  "(pre @ x0 # x1 # x2 # x3 # rest)
     [length pre := s0, length pre + 1 := s1, length pre + 2 := s2, length pre + 3 := s3]
   = (pre @ [s0, s1, s2, s3]) @ rest"
  by (simp add: list_update_append numeral_2_eq_2 numeral_3_eq_3)

lemma split_four:
  assumes "4 \<le> length buf"
  shows "\<exists>x0 x1 x2 x3 rest. buf = x0 # x1 # x2 # x3 # rest"
proof -
  obtain x0 r0 where 0: "buf = x0 # r0" using assms by (cases buf) auto
  then obtain x1 r1 where 1: "r0 = x1 # r1" using assms by (cases r0) auto
  then obtain x2 r2 where 2: "r1 = x2 # r2" using assms 0 by (cases r1) auto
  then obtain x3 r3 where 3: "r2 = x3 # r3" using assms 0 1 by (cases r2) auto
  show ?thesis using 0 1 2 3 by blast
qed

lemma loop_groups:
  assumes "i \<le> length data" "length buf = 4 * ((length data - i + 2) div 3)"
  shows "base64Encode_loop data i (length pre) (pre @ buf) = pre @ groups (drop i data)"
  using assms
proof (induction "length data - i" arbitrary: i pre buf rule: less_induct)
  case less
  consider (fin) "i = length data" | (one) "i + 1 = length data"
    | (two) "i + 2 = length data" | (more) "i + 3 \<le> length data"
    using less.prems(1) by linarith
  then show ?case
  proof cases
    case fin
    then have "buf = []" using less.prems(2) by simp
    with fin show ?thesis by (simp add: loop_done)
  next
    case one
    then have "length buf = 4" using less.prems(2) by simp
    then obtain x0 x1 x2 x3 where buf: "buf = [x0, x1, x2, x3]"
      using split_four [of buf] by auto
    have d: "drop i data = [data ! i]"
      using one by (metis Cons_nth_drop_Suc Suc_eq_plus1 drop_all lessI order_refl)
    have l: "length (pre @ [symbols (of_char (data ! i)) 0 0 ! 0,
        symbols (of_char (data ! i)) 0 0 ! 1, symbols (of_char (data ! i)) 0 0 ! 2,
        symbols (of_char (data ! i)) 0 0 ! 3]) = length pre + 4" by simp
    show ?thesis
      unfolding loop_one [OF one] buf write_four d symbols_nth'
      using one by (simp add: loop_done)
  next
    case two
    then have "length buf = 4" using less.prems(2) by simp
    then obtain x0 x1 x2 x3 where buf: "buf = [x0, x1, x2, x3]"
      using split_four [of buf] by auto
    have "drop i data = data ! i # drop (Suc i) data"
      using two by (intro Cons_nth_drop_Suc [symmetric]) simp
    moreover have "drop (Suc i) data = data ! Suc i # drop (Suc (Suc i)) data"
      using two by (intro Cons_nth_drop_Suc [symmetric]) simp
    ultimately have d: "drop i data = [data ! i, data ! (i + 1)]"
      using two by simp
    show ?thesis
      unfolding loop_two [OF two] buf write_four d symbols_nth'
      using two by (simp add: loop_done)
  next
    case more
    then have "4 \<le> length buf" using less.prems(2) by simp
    then obtain x0 x1 x2 x3 rest where buf: "buf = x0 # x1 # x2 # x3 # rest"
      using split_four [of buf] by auto
    have "(length data - i + 2) div 3 = (length data - (i + 3) + 2) div 3 + 1"
      using more by presburger
    then have lr: "length rest = 4 * ((length data - (i + 3) + 2) div 3)"
      using less.prems(2) by (simp add: buf)
    have "drop i data = data ! i # drop (Suc i) data"
      using more by (intro Cons_nth_drop_Suc [symmetric]) simp
    moreover have "drop (Suc i) data = data ! Suc i # drop (Suc (Suc i)) data"
      using more by (intro Cons_nth_drop_Suc [symmetric]) simp
    moreover have "drop (Suc (Suc i)) data = data ! Suc (Suc i) # drop (Suc (Suc (Suc i))) data"
      using more by (intro Cons_nth_drop_Suc [symmetric]) simp
    ultimately have d: "drop i data =
        data ! i # data ! (i + 1) # data ! (i + 2) # drop (i + 3) data"
      by (simp add: numeral_3_eq_3)
    define pre' where "pre' = pre @ [
        symbols (of_char (data ! i)) (of_char (data ! (i + 1))) (of_char (data ! (i + 2))) ! 0,
        symbols (of_char (data ! i)) (of_char (data ! (i + 1))) (of_char (data ! (i + 2))) ! 1,
        symbols (of_char (data ! i)) (of_char (data ! (i + 1))) (of_char (data ! (i + 2))) ! 2,
        symbols (of_char (data ! i)) (of_char (data ! (i + 1))) (of_char (data ! (i + 2))) ! 3]"
    have lp: "length pre' = length pre + 4" by (simp add: pre'_def)
    have p: "pre' = pre @ symbols (of_char (data ! i)) (of_char (data ! (i + 1)))
        (of_char (data ! (i + 2)))"
      unfolding pre'_def symbols_nth' ..
    have "base64Encode_loop data i (length pre) (pre @ buf) =
        base64Encode_loop data (i + 3) (length pre') (pre' @ rest)"
      unfolding loop_three [OF more] buf write_four pre'_def [symmetric] lp ..
    also have "\<dots> = pre' @ groups (drop (i + 3) data)"
      using more lr by (intro less.hyps) simp_all
    finally show ?thesis unfolding d p by simp
  qed
qed

lemma length_symbols: "length (symbols a b c) = 4"
  by (simp add: symbols_def Let_def)

lemma pad_append:
  assumes "length s = 4" "2 \<le> L"
  shows "base64Encode_pad (3 + n) (4 + L) (s @ r) = s @ base64Encode_pad n L r"
proof -
  have "(3 + n) mod 3 = n mod 3" by simp
  moreover have "4 + L - 1 = 4 + (L - 1)" "4 + L - 2 = 4 + (L - 2)" using assms(2) by simp_all
  ultimately show ?thesis
    using assms(1) by (simp add: base64Encode_pad_def Let_def list_update_append)
qed

lemma update_3_of_4: "[s0, s1, s2, s3][3 := x] = [s0, s1, s2, x]"
  by (simp add: numeral_3_eq_3)

lemma update_2_of_4: "[s0, s1, s2, s3][2 := x] = [s0, s1, x, s3]"
  by (simp add: numeral_2_eq_2)

lemma take_2_of_4: "take 2 [s0, s1, s2, s3] = [s0, s1]"
  by (simp add: numeral_2_eq_2)

lemma take_3_of_4: "take 3 [s0, s1, s2, s3] = [s0, s1, s2]"
  by (simp add: numeral_3_eq_3)

lemma pad_one: "base64Encode_pad 1 4 [s0, s1, s2, s3] = take 2 [s0, s1, s2, s3] @ ''==''"
  by (simp add: base64Encode_pad_def update_3_of_4 update_2_of_4 take_2_of_4)

lemma pad_two: "base64Encode_pad 2 4 [s0, s1, s2, s3] = take 3 [s0, s1, s2, s3] @ ''=''"
  by (simp add: base64Encode_pad_def update_3_of_4 take_3_of_4)

lemma encodedLen_step:
  "4 * ((length (a # b # c # rest) + 2) div 3) = 4 + 4 * ((length rest + 2) div 3)"
proof -
  have "(length rest + 3 + 2) div 3 = (length rest + 2) div 3 + 1" by presburger
  then show ?thesis by (simp add: add.commute)
qed

lemma pad_groups:
  "data \<noteq> [] \<Longrightarrow>
   base64Encode_pad (length data) (4 * ((length data + 2) div 3)) (groups data) = spec_encode data"
proof (induction data rule: groups.induct)
  case 1
  then show ?case by simp
next
  case (2 a)
  have "base64Encode_pad 1 4 (symbols (of_char a) 0 0) = take 2 (symbols (of_char a) 0 0) @ ''==''"
    using pad_one [of "symbols (of_char a) 0 0 ! 0" "symbols (of_char a) 0 0 ! 1"
        "symbols (of_char a) 0 0 ! 2" "symbols (of_char a) 0 0 ! 3"]
    unfolding symbols_nth' .
  then show ?case by simp
next
  case (3 a b)
  have "base64Encode_pad 2 4 (symbols (of_char a) (of_char b) 0) =
      take 3 (symbols (of_char a) (of_char b) 0) @ ''=''"
    using pad_two [of "symbols (of_char a) (of_char b) 0 ! 0" "symbols (of_char a) (of_char b) 0 ! 1"
        "symbols (of_char a) (of_char b) 0 ! 2" "symbols (of_char a) (of_char b) 0 ! 3"]
    unfolding symbols_nth' .
  moreover have "length [a, b] = 2" "4 * ((2 + 2) div 3) = (4::nat)" by simp_all
  ultimately show ?case by (simp only: groups.simps spec_encode.simps)
next
  case (4 a b c rest)
  show ?case
  proof (cases "rest = []")
    case True
    then show ?thesis by (simp add: base64Encode_pad_def)
  next
    case False
    then have "1 \<le> length rest" by (cases rest) simp_all
    then have "1 \<le> (length rest + 2) div 3" by presburger
    then have L: "2 \<le> 4 * ((length rest + 2) div 3)" by simp
    have n: "length (a # b # c # rest) = 3 + length rest" by simp
    have "base64Encode_pad (3 + length rest) (4 + 4 * ((length rest + 2) div 3))
        (symbols (of_char a) (of_char b) (of_char c) @ groups rest) =
        symbols (of_char a) (of_char b) (of_char c) @ spec_encode rest"
      using "4.IH" [OF False] by (simp only: pad_append [OF length_symbols L])
    then show ?thesis
      unfolding encodedLen_step unfolding n groups.simps spec_encode.simps .
  qed
qed

lemma base64Encode_eq_spec: "base64Encode data = spec_encode data"
proof (cases "data = []")
  case True
  then show ?thesis by (simp add: base64Encode_def)
next
  case False
  have "base64Encode_loop data 0 (length ([]::string))
      ([] @ replicate (4 * ((length data + 2) div 3)) (CHR 0x00)) = [] @ groups (drop 0 data)"
    by (rule loop_groups) simp_all
  then have "base64Encode_loop data 0 0 (replicate (4 * ((length data + 2) div 3)) (CHR 0x00))
      = groups data" by simp
  then show ?thesis
    using False pad_groups [OF False] by (simp add: base64Encode_def Let_def)
qed

lemma base64_roundtrip: "base64Decode (base64Encode data) = Some data"
  by (simp only: base64Encode_eq_spec base64Decode_spec_encode)

lemma quote_notin_TABLE: "CHR 0x22 \<notin> set TABLE"
  by (simp add: TABLE_def)

lemma set_symbols: "set (symbols a b c) \<subseteq> set TABLE"
proof -
  have "x mod 64 < length TABLE" for x :: nat by (simp add: length_TABLE)
  then show ?thesis
    unfolding symbols_arith by (simp add: nth_mem del: length_TABLE)
qed

lemma set_spec_encode: "set (spec_encode data) \<subseteq> insert (CHR ''='') (set TABLE)"
proof (induction data rule: spec_encode.induct)
  case 1
  show ?case by simp
next
  case (2 a)
  have "set (take 2 (symbols (of_char a) 0 0)) \<subseteq> set TABLE"
    using set_symbols set_take_subset by (rule order_trans [rotated])
  then show ?case by auto
next
  case (3 a b)
  have "set (take 3 (symbols (of_char a) (of_char b) 0)) \<subseteq> set TABLE"
    using set_symbols set_take_subset by (rule order_trans [rotated])
  then show ?case by auto
next
  case (4 a b c rest)
  then show ?case using set_symbols [of "of_char a" "of_char b" "of_char c"] by auto
qed

lemma base64Encode_no_quote: "\<forall>c \<in> set (base64Encode data). c \<noteq> CHR 0x22"
proof
  fix c assume "c \<in> set (base64Encode data)"
  then have "c = CHR ''='' \<or> c \<in> set TABLE"
    using set_spec_encode [of data] by (auto simp: base64Encode_eq_spec)
  then show "c \<noteq> CHR 0x22" using quote_notin_TABLE by auto
qed

lemma imagePayload_json:
  "imagePayload (tokenURI_json tokenId) = base64Encode (generateSVG tokenId)"
proof -
  define p where "p = base64Encode (generateSVG tokenId)"
  define h where "h = ''data:image/svg+xml;base64,''"
  define a where \<open>a = ''{"name":"TicTacToe Winner #'' @ toString tokenId
     @ ''","description":"This NFT proves you won a game of TicTacToe on the blockchain!","image":''\<close>
  have doc: \<open>tokenURI_json tokenId = a @ [CHR 0x22] @ h @ p @ [CHR 0x22, CHR ''}'']\<close>
    by (simp add: tokenURI_json_def a_def h_def p_def)
  have r: "drop 2 (rev (tokenURI_json tokenId)) = (rev p @ rev h) @ CHR 0x22 # rev a"
    unfolding doc by simp
  have np: "\<forall>c \<in> set (rev p @ rev h). c \<noteq> CHR 0x22"
    using base64Encode_no_quote [of "generateSVG tokenId"] by (auto simp: p_def h_def)
  have "takeWhile (\<lambda>c. c \<noteq> CHR 0x22) (drop 2 (rev (tokenURI_json tokenId))) = rev p @ rev h"
    unfolding r using np by (subst takeWhile_append2) auto
  then have "imagePayload (tokenURI_json tokenId) = drop (length h) (h @ p)"
    by (simp add: imagePayload_def h_def)
  then show ?thesis by (simp add: p_def)
qed

text \<open>The two conversions on small inputs.\<close>

lemma toString_examples:
  "toString 0 = ''0''" "toString 7 = ''7''" "toString 1024 = ''1024''"
  by code_simp+

lemma replicate_4: "replicate 4 x = [x, x, x, x]"
  by (simp add: numeral_eq_Suc)
lemma base64Encode_examples:
  "base64Encode ''Man'' = ''TWFu''" "base64Encode ''Ma'' = ''TWE=''"
  "base64Encode ''M'' = ''TQ==''"
  by (simp_all add: base64Encode_def base64Encode_loop.simps base64Encode_pad_def Let_def
      and_63 push_bit_eq_mult drop_bit_eq_div TABLE_def replicate_4 update_3_of_4 update_2_of_4)

text \<open>
  Claim C8. The byte-group encoding used by \<open>tokenURI\<close> is invertible: for every byte
  sequence, decoding the encoder's output yields the original input; and for every token
  identifier (zero included), decoding the data URI gives the metadata document, and
  decoding the encoded image embedded in that document gives, byte for byte, the SVG
  markup generated for the identifier.
\<close>

theorem describe_image_roundtrip:
  "base64Decode (base64Encode data) = Some data
   \<and> base64Decode (drop (length ''data:application/json;base64,'') (tokenURI tokenId))
       = Some (tokenURI_json tokenId)
   \<and> base64Decode (imagePayload (tokenURI_json tokenId)) = Some (generateSVG tokenId)"
  by (simp add: tokenURI_def imagePayload_json base64_roundtrip)

theorem describe_image_roundtrip_witness:
  "base64Encode ''Ma'' = ''TWE='' \<and> base64Decode ''TWE='' = Some ''Ma''"
  using describe_image_roundtrip [of "''Ma''" 0] base64Encode_examples(2) by simp

section \<open>The scenarios, evaluated\<close>

lemma replicate_9: "replicate 9 x = [x, x, x, x, x, x, x, x, x]"
  by (simp add: numeral_eq_Suc)

lemmas join_defs = createGame_def joinGame_def call_def createGame_body_def
  joinGame_body_def checked_inc_def emit_def initial_def Let_def clearBoard_from_0

lemmas move_defs = makeMove_def call_def makeMove_body_def setGame_def markOf_def emit_def
  Let_def checkWinner_def isBoardFull_def isBoardFull_from.simps mintWinnerNFT_def
  safeMint_def checked_inc_def uint8_ge_9

lemma afterJoin_eq: "afterJoin =
  \<lparr>gameCounter = 1, tokenIdCounter = 0,
   games = (\<lambda>_. zeroGame)(0 := \<lparr>player1 = 1, player2 = 2,
      board = [Empty, Empty, Empty, Empty, Empty, Empty, Empty, Empty, Empty],
      currentTurn = 1, winner = 0, state = InProgress, createdAt = 100, lastMoveAt = 100\<rparr>),
   playerGames = (\<lambda>_. [])(1 := [0], 2 := [0]), playerWins = (\<lambda>_. 0),
   playerGamesPlayed = (\<lambda>_. 0)(1 := 1, 2 := 1), tokenOwner = (\<lambda>_. 0),
   events = [GameCreated 0 1, GameJoined 0 2]\<rparr>"
  unfolding afterJoin_def by (simp add: join_defs zeroGame_def replicate_9)

lemma move1_eq: "snd (makeMove 1 101 0 0 afterJoin) =
  \<lparr>gameCounter = 1, tokenIdCounter = 0,
   games = (\<lambda>_. zeroGame)(0 := \<lparr>player1 = 1, player2 = 2,
      board = [MarkX, Empty, Empty, Empty, Empty, Empty, Empty, Empty, Empty],
      currentTurn = 2, winner = 0, state = InProgress, createdAt = 100, lastMoveAt = 101\<rparr>),
   playerGames = (\<lambda>_. [])(1 := [0], 2 := [0]), playerWins = (\<lambda>_. 0),
   playerGamesPlayed = (\<lambda>_. 0)(1 := 1, 2 := 1), tokenOwner = (\<lambda>_. 0),
   events = [GameCreated 0 1, GameJoined 0 2, MoveMade 0 1 0]\<rparr>"
  unfolding afterJoin_eq by (simp add: move_defs)

lemma move2_eq: "snd (makeMove 2 102 0 3 (snd (makeMove 1 101 0 0 afterJoin))) =
  \<lparr>gameCounter = 1, tokenIdCounter = 0,
   games = (\<lambda>_. zeroGame)(0 := \<lparr>player1 = 1, player2 = 2,
      board = [MarkX, Empty, Empty, MarkO, Empty, Empty, Empty, Empty, Empty],
      currentTurn = 1, winner = 0, state = InProgress, createdAt = 100, lastMoveAt = 102\<rparr>),
   playerGames = (\<lambda>_. [])(1 := [0], 2 := [0]), playerWins = (\<lambda>_. 0),
   playerGamesPlayed = (\<lambda>_. 0)(1 := 1, 2 := 1), tokenOwner = (\<lambda>_. 0),
   events = [GameCreated 0 1, GameJoined 0 2, MoveMade 0 1 0, MoveMade 0 2 3]\<rparr>"
  unfolding move1_eq by (simp add: move_defs)

lemma move3_eq:
  "snd (makeMove 1 103 0 1 (snd (makeMove 2 102 0 3 (snd (makeMove 1 101 0 0 afterJoin))))) =
  \<lparr>gameCounter = 1, tokenIdCounter = 0,
   games = (\<lambda>_. zeroGame)(0 := \<lparr>player1 = 1, player2 = 2,
      board = [MarkX, MarkX, Empty, MarkO, Empty, Empty, Empty, Empty, Empty],
      currentTurn = 2, winner = 0, state = InProgress, createdAt = 100, lastMoveAt = 103\<rparr>),
   playerGames = (\<lambda>_. [])(1 := [0], 2 := [0]), playerWins = (\<lambda>_. 0),
   playerGamesPlayed = (\<lambda>_. 0)(1 := 1, 2 := 1), tokenOwner = (\<lambda>_. 0),
   events = [GameCreated 0 1, GameJoined 0 2, MoveMade 0 1 0, MoveMade 0 2 3,
     MoveMade 0 1 1]\<rparr>"
  unfolding move2_eq by (simp add: move_defs)

lemma beforeWin_eq: "beforeWin =
  \<lparr>gameCounter = 1, tokenIdCounter = 0,
   games = (\<lambda>_. zeroGame)(0 := \<lparr>player1 = 1, player2 = 2,
      board = [MarkX, MarkX, Empty, MarkO, MarkO, Empty, Empty, Empty, Empty],
      currentTurn = 1, winner = 0, state = InProgress, createdAt = 100, lastMoveAt = 104\<rparr>),
   playerGames = (\<lambda>_. [])(1 := [0], 2 := [0]), playerWins = (\<lambda>_. 0),
   playerGamesPlayed = (\<lambda>_. 0)(1 := 1, 2 := 1), tokenOwner = (\<lambda>_. 0),
   events = [GameCreated 0 1, GameJoined 0 2, MoveMade 0 1 0, MoveMade 0 2 3,
     MoveMade 0 1 1, MoveMade 0 2 4]\<rparr>"
  unfolding beforeWin_def move3_eq by (simp add: move_defs)

lemma afterWin_eq: "afterWin =
  \<lparr>gameCounter = 1, tokenIdCounter = 1,
   games = (\<lambda>_. zeroGame)(0 := \<lparr>player1 = 1, player2 = 2,
      board = [MarkX, MarkX, MarkX, MarkO, MarkO, Empty, Empty, Empty, Empty],
      currentTurn = 1, winner = 1, state = Finished, createdAt = 100, lastMoveAt = 105\<rparr>),
   playerGames = (\<lambda>_. [])(1 := [0], 2 := [0]), playerWins = (\<lambda>_. 0)(1 := 1),
   playerGamesPlayed = (\<lambda>_. 0)(1 := 1, 2 := 1), tokenOwner = (\<lambda>_. 0)(0 := 1),
   events = [GameCreated 0 1, GameJoined 0 2, MoveMade 0 1 0, MoveMade 0 2 3,
     MoveMade 0 1 1, MoveMade 0 2 4, MoveMade 0 1 2, WinnerNFTMinted 0 1 0, GameWon 0 1]\<rparr>"
  unfolding afterWin_def beforeWin_eq by (simp add: move_defs)

lemma reachable_afterJoin: "reachable afterJoin"
  unfolding afterJoin_def by (intro reachable.intros) simp_all

lemma reachable_afterWin: "reachable afterWin"
  unfolding afterWin_def beforeWin_def by (intro reachable.intros reachable_afterJoin) simp_all

theorem makeMove_three_outcomes_witness:
  "fst (makeMove 1 105 0 2 beforeWin) = Inr ()
   \<and> winner (games (snd (makeMove 1 105 0 2 beforeWin)) 0) = 1
   \<and> state (games (snd (makeMove 1 105 0 2 beforeWin)) 0) = Finished
   \<and> currentTurn (games (snd (makeMove 1 105 0 2 beforeWin)) 0) = currentTurn (games beforeWin 0)"
proof -
  have h: "fst (makeMove 1 105 0 2 beforeWin) = Inr ()"
    unfolding beforeWin_eq by (simp add: move_defs)
  show ?thesis
    using h makeMove_three_outcomes [OF h]
    by (simp add: beforeWin_eq placed_def markOf_def checkWinner_def Let_def)
qed

theorem reachable_winner_and_terminal_states_witness:
  "reachable afterWin \<and> state (games afterWin 0) = Finished \<and> winner (games afterWin 0) = 1
   \<and> checkWinner (board (games afterWin 0)) (markOf (games afterWin 0) 1)"
  using reachable_winner_and_terminal_states [OF reachable_afterWin, of 0] reachable_afterWin
  by (simp add: afterWin_eq Let_def)

theorem makeMove_reports_first_violation_witness:
  "map_option snd (find fst (spec_preconditions 3 0 9 afterJoin)) = Some NotAPlayer
   \<and> makeMove 3 101 0 9 afterJoin = (Inl NotAPlayer, afterJoin)
   \<and> map snd (filter fst (take 5 (spec_preconditions 3 0 9 afterJoin)))
       = [NotAPlayer, NotYourTurn, InvalidPosition]"
proof -
  have h: "map_option snd (find fst (spec_preconditions 3 0 9 afterJoin)) = Some NotAPlayer"
    by (simp add: spec_preconditions_def afterJoin_eq)
  show ?thesis
    using h makeMove_reports_first_violation [of 3 0 9 afterJoin 101]
    by (simp add: spec_preconditions_def afterJoin_eq)
qed

theorem makeMove_position_9_witness:
  "makeMove 1 101 0 9 afterJoin = (Inl InvalidPosition, afterJoin)
   \<and> makeMove 2 101 0 9 afterJoin = (Inl NotYourTurn, afterJoin)"
  using makeMove_position_9 [of 1 101 0 afterJoin] makeMove_position_9 [of 2 101 0 afterJoin]
  by (simp add: afterJoin_eq)

theorem failed_call_leaves_storage_witness:
  "fst (joinGame 3 101 0 afterJoin) = Inl GameNotWaitingForPlayer
   \<and> snd (joinGame 3 101 0 afterJoin) = afterJoin
   \<and> fst (makeMove 2 101 0 4 afterJoin) = Inl NotYourTurn
   \<and> snd (makeMove 2 101 0 4 afterJoin) = afterJoin"
proof -
  have j: "fst (joinGame 3 101 0 afterJoin) = Inl GameNotWaitingForPlayer"
    unfolding afterJoin_eq by (simp add: joinGame_def call_def joinGame_body_def Let_def)
  have m: "fst (makeMove 2 101 0 4 afterJoin) = Inl NotYourTurn"
    unfolding afterJoin_eq by (simp add: move_defs)
  show ?thesis
    using j m failed_call_leaves_storage [of 3 101 0 afterJoin GameNotWaitingForPlayer]
      failed_call_leaves_storage [of 2 101 0 afterJoin NotYourTurn 4]
    by simp
qed

theorem getGame_unallocated_witness:
  "reachable afterJoin \<and> gameCounter afterJoin \<le> 7
   \<and> getGame afterJoin 7 = Inr (0, 0, replicate 9 Empty, 0, 0, WaitingForPlayer)"
proof -
  have h: "gameCounter afterJoin \<le> 7" by (simp add: afterJoin_eq)
  show ?thesis
    using h reachable_afterJoin getGame_unallocated [OF reachable_afterJoin h] by simp
qed

theorem player_counters_count_games_witness:
  "reachable afterWin
   \<and> unat (playerGamesPlayed afterWin 1) = 1 \<and> filter (joinedBy afterWin 1) (allocatedIds afterWin) = [0]
   \<and> unat (playerGamesPlayed afterWin 2) = 1 \<and> filter (joinedBy afterWin 2) (allocatedIds afterWin) = [0]
   \<and> unat (playerWins afterWin 1) = 1 \<and> filter (wonBy afterWin 1) (allocatedIds afterWin) = [0]
   \<and> unat (playerWins afterWin 2) = 0 \<and> filter (wonBy afterWin 2) (allocatedIds afterWin) = []"
  using player_counters_count_games [OF reachable_afterWin, of 1]
    player_counters_count_games [OF reachable_afterWin, of 2] reachable_afterWin
  by (simp add: afterWin_eq joinedBy_def wonBy_def allocatedIds_def)

end
